theory Spec2Isabelle
  imports Main "HOL-Library.Word" "HOL-Library.AList"
begin

section \<open>A Scheme interpreter in Python (lab.py)\<close>

text \<open>
  The theory embeds the parser, the frames, the evaluator and the built-in procedures of
  \<^verbatim>\<open>lab.py\<close>. Python objects that have an identity (frames, pairs, closures) live in
  a store and are referred to by their index; an exception is a value of type \<open>error\<close>,
  returned together with the store as it was when the exception was raised.

  The host's call stack is finite. \<^verbatim>\<open>evaluate\<close>, the call of a procedure, and the built-in
  procedures that call themselves or one of these take the room \<open>n\<close> on that stack: the
  number of nested activations of them for which the stack has room, their own included.
  With no room they raise the host's \<^verbatim>\<open>RecursionError\<close>, and they leave one activation
  less to what they call. A call that returns without calling on (a constructor, \<^verbatim>\<open>car\<close>,
  \<^verbatim>\<open>cdr\<close>, the lookup of a name) is not counted. The loops of the source take no room:
  a \<^verbatim>\<open>for\<close> loop is a recursion on its list, a \<^verbatim>\<open>while\<close> loop over pairs is a partial
  function, and the result \<open>None\<close> means that such a loop never ends. Only the parser
  takes fuel, for its recursion and its loop alike: there \<open>None\<close> means that the fuel did
  not suffice.
\<close>

subsection \<open>Exceptions\<close>

text \<open>
  The three subclasses of \<^verbatim>\<open>SchemeError\<close> of the source, and the exceptions of the host
  that the source can raise without catching them.
\<close>

datatype error =
    SchemeSyntaxError | SchemeNameError | SchemeEvaluationError
  | IndexError | TypeError | AttributeError | ZeroDivisionError | OverflowError
  | RecursionError

fun is_SchemeError :: "error \<Rightarrow> bool" where
  "is_SchemeError SchemeSyntaxError = True"
| "is_SchemeError SchemeNameError = True"
| "is_SchemeError SchemeEvaluationError = True"
| "is_SchemeError _ = False"

subsection \<open>Syntax trees and values\<close>

text \<open>
  A Python float is a 64-bit pattern. What the host computes on floats is not part of
  the source: it is the parameter \<open>host\<close> below.
\<close>

type_synonym pyfloat = "64 word"

datatype ast = Num int | Flt pyfloat | Sym string | Lst "ast list"

datatype builtin =
    M_minus | M_product | M_division | M_greater | M_lesser | M_greatereq | M_lessereq
  | M_equal | M_not_it | M_cons | M_car | M_cdr | M_list | M_islist | M_append
  | M_list_length | M_list_indexing | M_map_func | M_filter | M_reduce | M_beign

text \<open>
  \<open>VPair a\<close> is a reference to the \<open>a\<close>-th \<^verbatim>\<open>Pair\<close> object, \<open>VFunction a\<close> to the
  \<open>a\<close>-th \<^verbatim>\<open>Function\<close> object. \<open>VNill\<close> is the class \<^verbatim>\<open>Nill\<close> itself, \<open>VSum\<close> the
  host's \<^verbatim>\<open>sum\<close>, and \<open>VMethod b m\<close> the method \<open>m\<close> bound to the \<^verbatim>\<open>Builtin\<close> object at
  index \<open>b\<close> (for \<open>M_minus\<close>: the lambda created by that object).
\<close>

datatype val =
    VInt int | VFloat pyfloat | VBool bool | VPair nat | VNill | VFunction nat
  | VSum | VMethod nat builtin

subsection \<open>The host's numbers\<close>

datatype arith = Add | Sub | Mul | TrueDiv

datatype cmp = Lt | Eq | Gt | Unordered

record host =
  int_of_str :: "string \<Rightarrow> int option"
  float_of_str :: "string \<Rightarrow> pyfloat option"
  float_of_int :: "int \<Rightarrow> pyfloat option"
  int_truediv :: "int \<Rightarrow> int \<Rightarrow> pyfloat option"
  float_arith :: "arith \<Rightarrow> pyfloat \<Rightarrow> pyfloat \<Rightarrow> pyfloat"
  float_neg :: "pyfloat \<Rightarrow> pyfloat"
  float_cmp :: "pyfloat \<Rightarrow> pyfloat \<Rightarrow> cmp"
  float_cmp_int :: "pyfloat \<Rightarrow> int \<Rightarrow> cmp"

text \<open>
  \<open>int_of_str\<close> and \<open>float_of_str\<close> are \<^verbatim>\<open>int(value)\<close> and \<^verbatim>\<open>float(value)\<close>, \<open>None\<close> for
  a \<^verbatim>\<open>ValueError\<close>; \<open>float_of_int\<close> and \<open>int_truediv\<close> (for a divisor other than zero)
  are \<open>None\<close> for an \<^verbatim>\<open>OverflowError\<close>.
\<close>

datatype pynum = I int | F pyfloat

text \<open>\<^verbatim>\<open>bool\<close> is a subclass of \<^verbatim>\<open>int\<close>: \<^verbatim>\<open>True\<close> counts as 1 and \<^verbatim>\<open>False\<close> as 0.\<close>

fun as_num :: "val \<Rightarrow> pynum option" where
  "as_num (VInt n) = Some (I n)"
| "as_num (VBool b) = Some (I (if b then 1 else 0))"
| "as_num (VFloat x) = Some (F x)"
| "as_num _ = None"

fun flip :: "cmp \<Rightarrow> cmp" where
  "flip Lt = Gt"
| "flip Gt = Lt"
| "flip c = c"

fun num_cmp :: "host \<Rightarrow> pynum \<Rightarrow> pynum \<Rightarrow> cmp" where
  "num_cmp h (I a) (I b) = (if a < b then Lt else if a = b then Eq else Gt)"
| "num_cmp h (F x) (F y) = float_cmp h x y"
| "num_cmp h (F x) (I b) = float_cmp_int h x b"
| "num_cmp h (I a) (F y) = flip (float_cmp_int h y a)"

text \<open>
  \<^verbatim>\<open>a == b\<close>: numbers by value; a \<^verbatim>\<open>Pair\<close>, a \<^verbatim>\<open>Function\<close>, the class \<^verbatim>\<open>Nill\<close> and the
  built-in procedures define no \<^verbatim>\<open>__eq__\<close> and are equal only to themselves.
\<close>

definition py_eq :: "host \<Rightarrow> val \<Rightarrow> val \<Rightarrow> bool" where
  "py_eq h a b =
     (case (as_num a, as_num b) of
        (Some x, Some y) \<Rightarrow> num_cmp h x y = Eq
      | _ \<Rightarrow> a = b)"

definition py_ne :: "host \<Rightarrow> val \<Rightarrow> val \<Rightarrow> bool" where
  "py_ne h a b = (\<not> py_eq h a b)"

text \<open>\<^verbatim>\<open>bool(v)\<close>: a number is false when it is zero, every other object is true.\<close>

definition truthy :: "host \<Rightarrow> val \<Rightarrow> bool" where
  "truthy h v =
     (case as_num v of
        Some (I n) \<Rightarrow> n \<noteq> 0
      | Some (F x) \<Rightarrow> float_cmp_int h x 0 \<noteq> Eq
      | None \<Rightarrow> True)"

text \<open>\<^verbatim>\<open>a < b\<close> and its siblings raise \<^verbatim>\<open>TypeError\<close> unless both sides are numbers.\<close>

definition py_cmp :: "host \<Rightarrow> val \<Rightarrow> val \<Rightarrow> error + cmp" where
  "py_cmp h a b =
     (case (as_num a, as_num b) of
        (Some x, Some y) \<Rightarrow> Inr (num_cmp h x y)
      | _ \<Rightarrow> Inl TypeError)"

definition py_lt :: "host \<Rightarrow> val \<Rightarrow> val \<Rightarrow> error + bool" where
  "py_lt h a b = map_sum id (\<lambda>c. c = Lt) (py_cmp h a b)"

definition py_le :: "host \<Rightarrow> val \<Rightarrow> val \<Rightarrow> error + bool" where
  "py_le h a b = map_sum id (\<lambda>c. c = Lt \<or> c = Eq) (py_cmp h a b)"

definition py_gt :: "host \<Rightarrow> val \<Rightarrow> val \<Rightarrow> error + bool" where
  "py_gt h a b = map_sum id (\<lambda>c. c = Gt) (py_cmp h a b)"

definition py_ge :: "host \<Rightarrow> val \<Rightarrow> val \<Rightarrow> error + bool" where
  "py_ge h a b = map_sum id (\<lambda>c. c = Gt \<or> c = Eq) (py_cmp h a b)"

text \<open>
  Arithmetic. Two ints give an int, but for \<^verbatim>\<open>/\<close>, which tests the divisor and then
  gives a float. With a float on either side the int side is converted first, then
  \<^verbatim>\<open>/\<close> tests the divisor.
\<close>

definition float_op :: "host \<Rightarrow> arith \<Rightarrow> pyfloat \<Rightarrow> pyfloat \<Rightarrow> error + val" where
  "float_op h ope x y =
     (if ope = TrueDiv \<and> float_cmp_int h y 0 = Eq then Inl ZeroDivisionError
      else Inr (VFloat (float_arith h ope x y)))"

fun num_arith :: "host \<Rightarrow> arith \<Rightarrow> pynum \<Rightarrow> pynum \<Rightarrow> error + val" where
  "num_arith h Add (I a) (I b) = Inr (VInt (a + b))"
| "num_arith h Sub (I a) (I b) = Inr (VInt (a - b))"
| "num_arith h Mul (I a) (I b) = Inr (VInt (a * b))"
| "num_arith h TrueDiv (I a) (I b) =
     (if b = 0 then Inl ZeroDivisionError
      else case int_truediv h a b of
             None \<Rightarrow> Inl OverflowError
           | Some q \<Rightarrow> Inr (VFloat q))"
| "num_arith h ope (F x) (F y) = float_op h ope x y"
| "num_arith h ope (I a) (F y) =
     (case float_of_int h a of
        None \<Rightarrow> Inl OverflowError
      | Some x \<Rightarrow> float_op h ope x y)"
| "num_arith h ope (F x) (I b) =
     (case float_of_int h b of
        None \<Rightarrow> Inl OverflowError
      | Some y \<Rightarrow> if ope = TrueDiv \<and> b = 0 then Inl ZeroDivisionError
                  else float_op h ope x y)"

definition py_arith :: "host \<Rightarrow> arith \<Rightarrow> val \<Rightarrow> val \<Rightarrow> error + val" where
  "py_arith h ope a b =
     (case (as_num a, as_num b) of
        (Some x, Some y) \<Rightarrow> num_arith h ope x y
      | _ \<Rightarrow> Inl TypeError)"

definition py_neg :: "host \<Rightarrow> val \<Rightarrow> error + val" where
  "py_neg h a =
     (case as_num a of
        Some (I n) \<Rightarrow> Inr (VInt (- n))
      | Some (F x) \<Rightarrow> Inr (VFloat (float_neg h x))
      | None \<Rightarrow> Inl TypeError)"

subsection \<open>The store\<close>

text \<open>
  A \<^verbatim>\<open>Frame\<close> object has a dict \<^verbatim>\<open>bindings\<close> and a \<^verbatim>\<open>parent_frame\<close>; a \<^verbatim>\<open>Builtin\<close>
  object has \<^verbatim>\<open>bindings\<close> only (its \<^verbatim>\<open>__init__\<close> sets no parent), which is
  \<open>parent_frame = None\<close> here. The dict is a list of entries in insertion order; its
  keys are the atoms the source uses as names. (A float name is keyed by its bit
  pattern: that Python identifies the keys 1 and 1.0 is not modelled.)
\<close>

record Frame =
  bindings :: "(ast \<times> val) list"
  parent_frame :: "nat option"

record Function =
  frame :: nat
  paramaters :: ast
  code :: ast

record state =
  frames :: "Frame list"
  pairs :: "(val \<times> val) list"
  closures :: "Function list"

text \<open>
  A computation that may raise, on a store it may change; \<open>None\<close> when it does not
  return.
\<close>

type_synonym 'a res = "((error + 'a) \<times> state) option"

definition ret :: "'a \<Rightarrow> state \<Rightarrow> 'a res" where
  "ret v s = Some (Inr v, s)"

definition raise :: "error \<Rightarrow> state \<Rightarrow> 'a res" where
  "raise e s = Some (Inl e, s)"

definition lift :: "error + 'a \<Rightarrow> state \<Rightarrow> 'a res" where
  "lift r s = Some (r, s)"

fun bind_res :: "'a res \<Rightarrow> ('a \<Rightarrow> state \<Rightarrow> 'b res) \<Rightarrow> 'b res" where
  "bind_res None k = None"
| "bind_res (Some (Inl e, s)) k = Some (Inl e, s)"
| "bind_res (Some (Inr v, s)) k = k v s"

text \<open>The same for a computation that only reads the store.\<close>

fun bind_pure :: "(error + 'a) option \<Rightarrow> state \<Rightarrow> ('a \<Rightarrow> 'b res) \<Rightarrow> 'b res" where
  "bind_pure None s k = None"
| "bind_pure (Some (Inl e)) s k = Some (Inl e, s)"
| "bind_pure (Some (Inr v)) s k = k v"

subsection \<open>Sequences of the host\<close>

text \<open>
  \<^verbatim>\<open>xs[i]\<close> on a list raises \<^verbatim>\<open>IndexError\<close> out of range. A syntax tree that is a
  symbol is a Python \<^verbatim>\<open>str\<close>, which is a sequence of one-character strings as well; a
  number is no sequence.
\<close>

definition index :: "'a list \<Rightarrow> nat \<Rightarrow> error + 'a" where
  "index xs i = (if i < length xs then Inr (xs ! i) else Inl IndexError)"

fun ast_items :: "ast \<Rightarrow> error + ast list" where
  "ast_items (Lst ts) = Inr ts"
| "ast_items (Sym name) = Inr (map (\<lambda>c. Sym [c]) name)"
| "ast_items _ = Inl TypeError"

definition ast_index :: "ast \<Rightarrow> nat \<Rightarrow> error + ast" where
  "ast_index t i = (case ast_items t of Inl e \<Rightarrow> Inl e | Inr ts \<Rightarrow> index ts i)"

text \<open>A list cannot be a key of a dict: \<^verbatim>\<open>TypeError: unhashable type\<close>.\<close>

fun hashable :: "ast \<Rightarrow> bool" where
  "hashable (Lst ts) = False"
| "hashable _ = True"

subsection \<open>Frames\<close>

text \<open>
  \<^verbatim>\<open>Frame.__getitem__\<close> and \<^verbatim>\<open>Builtin.__getitem__\<close>. A frame is created after its
  parent, so the parent's index is the smaller one; the test \<open>p < f\<close> makes the
  recursion well-founded and holds in every store the program builds (\<open>wf_frames\<close>).
\<close>

function getitem :: "state \<Rightarrow> nat \<Rightarrow> ast \<Rightarrow> error + val" where
  "getitem s f var =
     (if \<not> hashable var then Inl TypeError
      else case map_of (bindings (frames s ! f)) var of
             Some v \<Rightarrow> Inr v
           | None \<Rightarrow>
               (case parent_frame (frames s ! f) of
                  None \<Rightarrow> Inl SchemeNameError
                | Some p \<Rightarrow> if p < f then getitem s p var else Inl RecursionError))"
  by pat_completeness auto
termination
  by (relation "measure (\<lambda>(s, f, var). f)") auto

declare getitem.simps [simp del]

text \<open>\<^verbatim>\<open>Frame.__setitem__\<close>.\<close>

definition bind_frame :: "nat \<Rightarrow> ast \<Rightarrow> val \<Rightarrow> state \<Rightarrow> state" where
  "bind_frame f var v s =
     s\<lparr>frames := (frames s)[f := (frames s ! f)
          \<lparr>bindings := AList.update var v (bindings (frames s ! f))\<rparr>]\<rparr>"

definition setitem :: "state \<Rightarrow> nat \<Rightarrow> ast \<Rightarrow> val \<Rightarrow> error + state" where
  "setitem s f var v =
     (if \<not> hashable var then Inl TypeError else Inr (bind_frame f var v s))"

text \<open>
  \<^verbatim>\<open>Frame.set_exisits\<close>. A \<^verbatim>\<open>Builtin\<close> object inherits the method and has no attribute
  \<^verbatim>\<open>parent_frame\<close>.
\<close>

function set_exisits :: "state \<Rightarrow> nat \<Rightarrow> ast \<Rightarrow> val \<Rightarrow> error + state" where
  "set_exisits s f var v =
     (if \<not> hashable var then Inl TypeError
      else if map_of (bindings (frames s ! f)) var \<noteq> None then Inr (bind_frame f var v s)
      else case parent_frame (frames s ! f) of
             None \<Rightarrow> Inl AttributeError
           | Some p \<Rightarrow> if p < f then set_exisits s p var v else Inl RecursionError)"
  by pat_completeness auto
termination
  by (relation "measure (\<lambda>(s, f, var, v). f)") auto

declare set_exisits.simps [simp del]

text \<open>\<^verbatim>\<open>Frame.delete\<close>.\<close>

definition delete :: "state \<Rightarrow> nat \<Rightarrow> ast \<Rightarrow> (error + val) \<times> state" where
  "delete s f var =
     (if \<not> hashable var then (Inl TypeError, s)
      else case map_of (bindings (frames s ! f)) var of
             None \<Rightarrow> (Inl SchemeNameError, s)
           | Some v \<Rightarrow>
               (Inr v, s\<lparr>frames := (frames s)[f := (frames s ! f)
                  \<lparr>bindings := AList.delete var (bindings (frames s ! f))\<rparr>]\<rparr>))"

text \<open>\<^verbatim>\<open>Builtin.__init__\<close>: the object at the next free index \<open>b\<close>.\<close>

definition Builtin_bindings :: "nat \<Rightarrow> (ast \<times> val) list" where
  "Builtin_bindings b =
     [(Sym ''+'', VSum),
      (Sym ''-'', VMethod b M_minus),
      (Sym ''*'', VMethod b M_product),
      (Sym ''/'', VMethod b M_division),
      (Sym ''#t'', VBool True),
      (Sym ''#f'', VBool False),
      (Sym ''>'', VMethod b M_greater),
      (Sym ''<'', VMethod b M_lesser),
      (Sym ''>='', VMethod b M_greatereq),
      (Sym ''<='', VMethod b M_lessereq),
      (Sym ''equal?'', VMethod b M_equal),
      (Sym ''not'', VMethod b M_not_it),
      (Sym ''cons'', VMethod b M_cons),
      (Sym ''car'', VMethod b M_car),
      (Sym ''cdr'', VMethod b M_cdr),
      (Sym ''nil'', VNill),
      (Sym ''list'', VMethod b M_list),
      (Sym ''list?'', VMethod b M_islist),
      (Sym ''append'', VMethod b M_append),
      (Sym ''length'', VMethod b M_list_length),
      (Sym ''list-ref'', VMethod b M_list_indexing),
      (Sym ''map'', VMethod b M_map_func),
      (Sym ''filter'', VMethod b M_filter),
      (Sym ''reduce'', VMethod b M_reduce),
      (Sym ''begin'', VMethod b M_beign)]"

definition new_Builtin :: "state \<Rightarrow> nat \<times> state" where
  "new_Builtin s =
     (let b = length (frames s)
      in (b, s\<lparr>frames := frames s @
            [\<lparr>bindings = Builtin_bindings b, parent_frame = None\<rparr>]\<rparr>))"

text \<open>
  \<^verbatim>\<open>Frame.__init__\<close>: without a parent the frame gets a \<^verbatim>\<open>Builtin\<close> object of its own
  as its parent.
\<close>

definition new_Frame :: "nat option \<Rightarrow> state \<Rightarrow> nat \<times> state" where
  "new_Frame parent s =
     (case parent of
        None \<Rightarrow>
          (let (b, s1) = new_Builtin s
           in (length (frames s1), s1\<lparr>frames := frames s1 @
                 [\<lparr>bindings = [], parent_frame = Some b\<rparr>]\<rparr>))
      | Some p \<Rightarrow>
          (length (frames s), s\<lparr>frames := frames s @
             [\<lparr>bindings = [], parent_frame = Some p\<rparr>]\<rparr>))"

definition empty_state :: state where
  "empty_state = \<lparr>frames = [], pairs = [], closures = []\<rparr>"

subsection \<open>Pairs\<close>

text \<open>\<^verbatim>\<open>Pair(a, d)\<close> creates a new object; \<^verbatim>\<open>x.car\<close> and \<^verbatim>\<open>x.cdr\<close> exist on a pair only.\<close>

definition new_Pair :: "val \<Rightarrow> val \<Rightarrow> state \<Rightarrow> val res" where
  "new_Pair a d s = ret (VPair (length (pairs s))) (s\<lparr>pairs := pairs s @ [(a, d)]\<rparr>)"

fun is_Pair :: "val \<Rightarrow> bool" where
  "is_Pair (VPair a) = True"
| "is_Pair _ = False"

fun attr_car :: "state \<Rightarrow> val \<Rightarrow> error + val" where
  "attr_car s (VPair a) = Inr (fst (pairs s ! a))"
| "attr_car s _ = Inl AttributeError"

fun attr_cdr :: "state \<Rightarrow> val \<Rightarrow> error + val" where
  "attr_cdr s (VPair a) = Inr (snd (pairs s ! a))"
| "attr_cdr s _ = Inl AttributeError"

text \<open>\<^verbatim>\<open>x.cdr = v\<close>, which the source does on pairs only.\<close>

fun set_cdr :: "val \<Rightarrow> val \<Rightarrow> state \<Rightarrow> unit res" where
  "set_cdr (VPair a) v s = ret () (s\<lparr>pairs := (pairs s)[a := (fst (pairs s ! a), v)]\<rparr>)"
| "set_cdr _ v s = raise AttributeError s"

subsection \<open>Built-in procedures that call no procedure\<close>

text \<open>\<^verbatim>\<open>sum(args)\<close> of the host, and the folds of \<^verbatim>\<open>product\<close> and \<^verbatim>\<open>division\<close>.\<close>

fun arith_from :: "host \<Rightarrow> arith \<Rightarrow> val \<Rightarrow> val list \<Rightarrow> error + val" where
  "arith_from h ope answer [] = Inr answer"
| "arith_from h ope answer (x # xs) =
     (case py_arith h ope answer x of
        Inl e \<Rightarrow> Inl e
      | Inr a \<Rightarrow> arith_from h ope a xs)"

definition py_sum :: "host \<Rightarrow> val list \<Rightarrow> error + val" where
  "py_sum h args = arith_from h Add (VInt 0) args"

definition minus_m :: "host \<Rightarrow> val list \<Rightarrow> error + val" where
  "minus_m h args =
     (if length args = 1 then py_neg h (args ! 0)
      else case index args 0 of
             Inl e \<Rightarrow> Inl e
           | Inr a0 \<Rightarrow>
               (case py_sum h (drop 1 args) of
                  Inl e \<Rightarrow> Inl e
                | Inr r \<Rightarrow> py_arith h Sub a0 r))"

definition product_m :: "host \<Rightarrow> val list \<Rightarrow> error + val" where
  "product_m h products =
     (case index products 0 of
        Inl e \<Rightarrow> Inl e
      | Inr answer \<Rightarrow> arith_from h Mul answer (drop 1 products))"

definition division :: "host \<Rightarrow> val list \<Rightarrow> error + val" where
  "division h divisers =
     (case index divisers 0 of
        Inl e \<Rightarrow> Inl e
      | Inr answer \<Rightarrow> arith_from h TrueDiv answer (drop 1 divisers))"

definition equal_m :: "host \<Rightarrow> val list \<Rightarrow> error + val" where
  "equal_m h equalizers =
     (case index equalizers 0 of
        Inl e \<Rightarrow> Inl e
      | Inr equalizer1 \<Rightarrow>
          Inr (VBool (list_all (\<lambda>equalizer. \<not> py_ne h equalizer1 equalizer) equalizers)))"

text \<open>
  The four comparisons walk the neighbours from the left and return \<^verbatim>\<open>False\<close> at the
  first pair for which the test \<open>bad\<close> holds.
\<close>

fun neighbours :: "(val \<Rightarrow> val \<Rightarrow> error + bool) \<Rightarrow> val list \<Rightarrow> error + val" where
  "neighbours bad (a # b # rest) =
     (case bad a b of
        Inl e \<Rightarrow> Inl e
      | Inr t \<Rightarrow> if t then Inr (VBool False) else neighbours bad (b # rest))"
| "neighbours bad _ = Inr (VBool True)"

definition greater :: "host \<Rightarrow> val list \<Rightarrow> error + val" where
  "greater h greaters = neighbours (py_le h) greaters"

definition lesser :: "host \<Rightarrow> val list \<Rightarrow> error + val" where
  "lesser h lessers = neighbours (py_ge h) lessers"

definition greatereq :: "host \<Rightarrow> val list \<Rightarrow> error + val" where
  "greatereq h greatereqs = neighbours (py_lt h) greatereqs"

definition lessereq :: "host \<Rightarrow> val list \<Rightarrow> error + val" where
  "lessereq h lessereqs = neighbours (py_gt h) lessereqs"

definition not_it :: "host \<Rightarrow> val list \<Rightarrow> error + val" where
  "not_it h notters =
     (if length notters \<noteq> 1 then Inl SchemeEvaluationError
      else Inr (VBool (\<not> truthy h (notters ! 0))))"

definition cons :: "val list \<Rightarrow> state \<Rightarrow> val res" where
  "cons con s =
     (if length con \<noteq> 2 then raise SchemeEvaluationError s
      else new_Pair (con ! 0) (con ! 1) s)"

definition car :: "state \<Rightarrow> val list \<Rightarrow> error + val" where
  "car s con =
     (if length con \<noteq> 1 \<or> \<not> is_Pair (con ! 0) then Inl SchemeEvaluationError
      else attr_car s (con ! 0))"

definition cdr :: "state \<Rightarrow> val list \<Rightarrow> error + val" where
  "cdr s con =
     (if length con \<noteq> 1 \<or> \<not> is_Pair (con ! 0) then Inl SchemeEvaluationError
      else attr_cdr s (con ! 0))"

text \<open>\<^verbatim>\<open>Builtin.list\<close>: the pairs are created from the last element to the first.\<close>

fun list_from :: "val list \<Rightarrow> val \<Rightarrow> state \<Rightarrow> val res" where
  "list_from [] list_object s = ret list_object s"
| "list_from (list_element # rest) list_object s =
     bind_res (new_Pair list_element list_object s) (\<lambda>p s1. list_from rest p s1)"

definition list_m :: "val list \<Rightarrow> state \<Rightarrow> val res" where
  "list_m list_elements s = list_from (rev list_elements) VNill s"

text \<open>
  \<^verbatim>\<open>Builtin.islist\<close> walks the list by recursion, one activation for each pair; \<open>n\<close> is the
  room on the host's stack.
\<close>

fun islist :: "nat \<Rightarrow> state \<Rightarrow> val list \<Rightarrow> error + bool" where
  "islist 0 s listy = Inl RecursionError"
| "islist (Suc n) s listy =
     (case index listy 0 of
        Inl e \<Rightarrow> Inl e
      | Inr l0 \<Rightarrow>
          if l0 = VNill then Inr True
          else if length listy \<noteq> 1 \<or> \<not> is_Pair l0 then Inr False
          else (case cdr s listy of
                  Inl e \<Rightarrow> Inl e
                | Inr d \<Rightarrow>
                    if is_Pair d then islist n s [d]
                    else if d = VNill then Inr True
                    else Inr False))"

text \<open>
  \<^verbatim>\<open>Builtin.list_length\<close> and its \<^verbatim>\<open>while\<close> loop with the variables \<^verbatim>\<open>listy\<close> and
  \<^verbatim>\<open>count\<close>.
\<close>

partial_function (option)
  length_loop :: "state \<Rightarrow> val list \<Rightarrow> int \<Rightarrow> (error + val) option"
where
  "length_loop s listy count =
     (case cdr s listy of
        Inl e \<Rightarrow> Some (Inl e)
      | Inr d \<Rightarrow>
          if d \<noteq> VNill then
            (case cdr s [listy ! 0] of
               Inl e \<Rightarrow> Some (Inl e)
             | Inr d' \<Rightarrow> length_loop s [d'] (count + 1))
          else Some (Inr (VInt count)))"

declare length_loop.simps [code]

fun list_length :: "nat \<Rightarrow> state \<Rightarrow> val list \<Rightarrow> (error + val) option" where
  "list_length 0 s listy = Some (Inl RecursionError)"
| "list_length (Suc n) s listy =
     (case islist n s listy of
        Inl e \<Rightarrow> Some (Inl e)
      | Inr ok \<Rightarrow>
          if \<not> ok then Some (Inl SchemeEvaluationError)
          else if listy ! 0 = VNill then Some (Inr (VInt 0))
          else length_loop s listy 1)"

text \<open>
  \<^verbatim>\<open>Builtin.list_indexing\<close> and its \<^verbatim>\<open>while\<close> loop with the variables \<^verbatim>\<open>linked_list\<close>
  and \<^verbatim>\<open>index\<close>.
\<close>

partial_function (option)
  indexing_loop :: "host \<Rightarrow> state \<Rightarrow> val \<Rightarrow> val \<Rightarrow> (error + val) option"
where
  "indexing_loop h s linked_list idx =
     (if py_ne h idx (VInt 0) then
        (case cdr s [linked_list] of
           Inl e \<Rightarrow> Some (Inl e)
         | Inr linked_list' \<Rightarrow>
             (case py_arith h Sub idx (VInt 1) of
                Inl e \<Rightarrow> Some (Inl e)
              | Inr idx' \<Rightarrow> indexing_loop h s linked_list' idx'))
      else Some (car s [linked_list]))"

declare indexing_loop.simps [code]

fun list_indexing :: "host \<Rightarrow> nat \<Rightarrow> state \<Rightarrow> val list \<Rightarrow> (error + val) option" where
  "list_indexing h 0 s listy = Some (Inl RecursionError)"
| "list_indexing h (Suc n) s listy =
     (case index listy 0 of
        Inl e \<Rightarrow> Some (Inl e)
      | Inr l0 \<Rightarrow>
          (case islist n s [l0] of
             Inl e \<Rightarrow> Some (Inl e)
           | Inr ok \<Rightarrow>
               if ok then
                 (case index listy 1 of
                    Inl e \<Rightarrow> Some (Inl e)
                  | Inr l1 \<Rightarrow>
                      (case list_length n s [l0] of
                         None \<Rightarrow> None
                       | Some (Inl e) \<Rightarrow> Some (Inl e)
                       | Some (Inr len) \<Rightarrow>
                           (case py_lt h l1 len of
                              Inl e \<Rightarrow> Some (Inl e)
                            | Inr t \<Rightarrow>
                                if t then indexing_loop h s l0 l1
                                else Some (Inl SchemeEvaluationError))))
               else
                 (case index listy 1 of
                    Inl e \<Rightarrow> Some (Inl e)
                  | Inr l1 \<Rightarrow>
                      if py_eq h l1 (VInt 0) \<and> is_Pair l0 then Some (car s [l0])
                      else Some (Inl SchemeEvaluationError))))"

text \<open>\<^verbatim>\<open>Builtin.copy\<close>, which recurses along the list as well.\<close>

fun copy :: "nat \<Rightarrow> val list \<Rightarrow> state \<Rightarrow> val res" where
  "copy 0 listy s = raise RecursionError s"
| "copy (Suc n) listy s =
     (case index listy 0 of
        Inl e \<Rightarrow> raise e s
      | Inr old_list \<Rightarrow>
          if old_list = VNill then ret VNill s
          else (case attr_car s old_list of
                  Inl e \<Rightarrow> raise e s
                | Inr a \<Rightarrow>
                    (case attr_cdr s old_list of
                       Inl e \<Rightarrow> raise e s
                     | Inr d \<Rightarrow>
                         bind_res (copy n [d] s) (\<lambda>c s1. new_Pair a c s1))))"

definition beign :: "val list \<Rightarrow> error + val" where
  "beign listy = (if listy = [] then Inl IndexError else Inr (last listy))"

text \<open>
  \<^verbatim>\<open>Builtin.append\<close>. \<open>walk_end\<close> is the inner \<^verbatim>\<open>while\<close> loop, \<open>append_loop\<close> the
  \<^verbatim>\<open>for\<close> loop over \<^verbatim>\<open>listy[1:]\<close> with the variables \<^verbatim>\<open>new_list\<close> and \<^verbatim>\<open>end_of_list\<close>.
\<close>

partial_function (option) walk_end :: "state \<Rightarrow> val \<Rightarrow> (error + val) option" where
  "walk_end s end_of_list =
     (case cdr s [end_of_list] of
        Inl e \<Rightarrow> Some (Inl e)
      | Inr d \<Rightarrow>
          if d \<noteq> VNill then walk_end s d
          else Some (Inr end_of_list))"

declare walk_end.simps [code]

fun append_loop :: "nat \<Rightarrow> val list \<Rightarrow> val \<Rightarrow> val \<Rightarrow> state \<Rightarrow> val res" where
  "append_loop n [] new_list end_of_list s = ret new_list s"
| "append_loop n (additional_list # rest) new_list end_of_list s =
     (if new_list = VNill then
        bind_res (copy n [additional_list] s)
          (\<lambda>c s1. append_loop n rest c end_of_list s1)
      else if additional_list = VNill then append_loop n rest new_list end_of_list s
      else
        (case islist n s [additional_list] of
           Inl e \<Rightarrow> raise e s
         | Inr ok \<Rightarrow>
             if \<not> ok then raise SchemeEvaluationError s
             else
               bind_pure (walk_end s end_of_list) s (\<lambda>end_of_list'.
                 bind_res (copy n [additional_list] s) (\<lambda>c s1.
                   bind_res (set_cdr end_of_list' c s1) (\<lambda>u s2.
                     append_loop n rest new_list end_of_list' s2)))))"

fun append_m :: "nat \<Rightarrow> val list \<Rightarrow> state \<Rightarrow> val res" where
  "append_m 0 listy s = raise RecursionError s"
| "append_m (Suc n) listy s =
     (if length listy = 0 then ret VNill s
      else
        (case islist n s [listy ! 0] of
           Inl e \<Rightarrow> raise e s
         | Inr ok \<Rightarrow>
             if \<not> ok then raise SchemeEvaluationError s
             else
               bind_res (copy n [listy ! 0] s) (\<lambda>new_list s1.
                 append_loop n (drop 1 listy) new_list new_list s1)))"

subsection \<open>Closures\<close>

definition new_Function :: "nat \<Rightarrow> ast \<Rightarrow> ast \<Rightarrow> state \<Rightarrow> val res" where
  "new_Function f ps body s =
     ret (VFunction (length (closures s)))
       (s\<lparr>closures := closures s @ [\<lparr>frame = f, paramaters = ps, code = body\<rparr>]\<rparr>)"

text \<open>The loop of \<^verbatim>\<open>Function.__call__\<close> over \<^verbatim>\<open>zip(arg, self.paramaters)\<close>.\<close>

fun bind_params :: "nat \<Rightarrow> (val \<times> ast) list \<Rightarrow> state \<Rightarrow> unit res" where
  "bind_params func_frame [] s = ret () s"
| "bind_params func_frame ((v, var) # rest) s =
     (case setitem s func_frame var v of
        Inl e \<Rightarrow> raise e s
      | Inr s1 \<Rightarrow> bind_params func_frame rest s1)"

text \<open>
  \<^verbatim>\<open>callable(x)\<close>: a closure, a built-in procedure, and the class \<^verbatim>\<open>Nill\<close> (calling it
  with an argument raises \<^verbatim>\<open>TypeError\<close>).
\<close>

fun callable :: "val \<Rightarrow> bool" where
  "callable (VFunction a) = True"
| "callable VSum = True"
| "callable (VMethod b m) = True"
| "callable VNill = True"
| "callable _ = False"

subsection \<open>The evaluator\<close>

text \<open>
  \<open>evaluate h n tree f s\<close> is \<^verbatim>\<open>evaluate(tree, frame)\<close> for the frame at index \<open>f\<close>;
  \<open>call h n fn arg s\<close> is the call \<^verbatim>\<open>fn(arg)\<close> of a value, which is
  \<^verbatim>\<open>Function.__call__\<close> for a closure. The loops of \<^verbatim>\<open>evaluate\<close> are \<open>and_loop\<close>,
  \<open>or_loop\<close>, \<open>let_loop\<close> and \<open>elements_loop\<close>. The built-in procedures \<^verbatim>\<open>map_func\<close>,
  \<^verbatim>\<open>filter\<close> and \<^verbatim>\<open>reduce\<close> call their argument and are part of the recursion.
\<close>

function evaluate :: "host \<Rightarrow> nat \<Rightarrow> ast \<Rightarrow> nat \<Rightarrow> state \<Rightarrow> val res"
  and and_loop :: "host \<Rightarrow> nat \<Rightarrow> ast list \<Rightarrow> nat \<Rightarrow> state \<Rightarrow> val res"
  and or_loop :: "host \<Rightarrow> nat \<Rightarrow> ast list \<Rightarrow> nat \<Rightarrow> state \<Rightarrow> val res"
  and let_loop :: "host \<Rightarrow> nat \<Rightarrow> ast list \<Rightarrow> nat \<Rightarrow> state \<Rightarrow> unit res"
  and elements_loop :: "host \<Rightarrow> nat \<Rightarrow> ast list \<Rightarrow> nat \<Rightarrow> state \<Rightarrow> val list res"
  and call :: "host \<Rightarrow> nat \<Rightarrow> val \<Rightarrow> val list \<Rightarrow> state \<Rightarrow> val res"
  and map_func :: "host \<Rightarrow> nat \<Rightarrow> val list \<Rightarrow> state \<Rightarrow> val res"
  and filter_m :: "host \<Rightarrow> nat \<Rightarrow> val list \<Rightarrow> state \<Rightarrow> val res"
  and reduce :: "host \<Rightarrow> nat \<Rightarrow> val list \<Rightarrow> state \<Rightarrow> val res"
where
  "evaluate h 0 tree f s = raise RecursionError s"
| "evaluate h (Suc n) tree f s =
     (case tree of
        Num i \<Rightarrow> ret (VInt i) s
      | Flt x \<Rightarrow> ret (VFloat x) s
      | Sym name \<Rightarrow> lift (getitem s f tree) s
      | Lst ts \<Rightarrow>
          if length ts = 0 then raise SchemeEvaluationError s
          else if ts ! 0 = Sym ''define'' then
            (case index ts 1 of
               Inl e \<Rightarrow> raise e s
             | Inr t1 \<Rightarrow>
                 (case t1 of
                    Lst l1 \<Rightarrow>
                      (case index ts 2 of
                         Inl e \<Rightarrow> raise e s
                       | Inr t2 \<Rightarrow>
                           (case index l1 0 of
                              Inl e \<Rightarrow> raise e s
                            | Inr name \<Rightarrow>
                                evaluate h n
                                  (Lst [ts ! 0, name,
                                        Lst [Sym ''lambda'', Lst (drop 1 l1), t2]]) f s))
                  | _ \<Rightarrow>
                      (case index ts 2 of
                         Inl e \<Rightarrow> raise e s
                       | Inr t2 \<Rightarrow>
                           bind_res (evaluate h n t2 f s) (\<lambda>result s1.
                             case setitem s1 f t1 result of
                               Inl e \<Rightarrow> raise e s1
                             | Inr s2 \<Rightarrow> ret result s2))))
          else if ts ! 0 = Sym ''lambda'' then
            (case index ts 1 of
               Inl e \<Rightarrow> raise e s
             | Inr t1 \<Rightarrow>
                 (case index ts 2 of
                    Inl e \<Rightarrow> raise e s
                  | Inr t2 \<Rightarrow> new_Function f t1 t2 s))
          else if ts ! 0 = Sym ''if'' then
            (case index ts 1 of
               Inl e \<Rightarrow> raise e s
             | Inr t1 \<Rightarrow>
                 bind_res (evaluate h n t1 f s) (\<lambda>c s1.
                   if py_eq h c (VBool True) then
                     (case index ts 2 of
                        Inl e \<Rightarrow> raise e s1
                      | Inr t2 \<Rightarrow> evaluate h n t2 f s1)
                   else
                     (case index ts 3 of
                        Inl e \<Rightarrow> raise e s1
                      | Inr t3 \<Rightarrow> evaluate h n t3 f s1)))
          else if ts ! 0 = Sym ''and'' then and_loop h n (drop 1 ts) f s
          else if ts ! 0 = Sym ''or'' then or_loop h n (drop 1 ts) f s
          else if ts ! 0 = Sym ''del'' then
            (case index ts 1 of
               Inl e \<Rightarrow> raise e s
             | Inr t1 \<Rightarrow>
                 bind_res (evaluate h n t1 f s) (\<lambda>u s1. Some (delete s1 f t1)))
          else if ts ! 0 = Sym ''let'' then
            (let (baby_frame, s0) = new_Frame (Some f) s
             in case index ts 1 of
                  Inl e \<Rightarrow> raise e s0
                | Inr t1 \<Rightarrow>
                    (case ast_items t1 of
                       Inl e \<Rightarrow> raise e s0
                     | Inr sub_trees \<Rightarrow>
                         bind_res (let_loop h n sub_trees baby_frame s0) (\<lambda>u s1.
                           case index ts 2 of
                             Inl e \<Rightarrow> raise e s1
                           | Inr t2 \<Rightarrow> evaluate h n t2 baby_frame s1)))
          else if ts ! 0 = Sym ''set!'' then
            (case index ts 1 of
               Inl e \<Rightarrow> raise e s
             | Inr t1 \<Rightarrow>
                 (case getitem s f t1 of
                    Inl e \<Rightarrow> raise e s
                  | Inr old \<Rightarrow>
                      (case index ts 2 of
                         Inl e \<Rightarrow> raise e s
                       | Inr t2 \<Rightarrow>
                           bind_res (evaluate h n t2 f s) (\<lambda>temp s1.
                             case set_exisits s1 f t1 temp of
                               Inl e \<Rightarrow> raise e s1
                             | Inr s2 \<Rightarrow> ret temp s2))))
          else
            bind_res (elements_loop h n ts f s) (\<lambda>eval_tree s1.
              if \<not> callable (eval_tree ! 0) then raise SchemeEvaluationError s1
              else call h n (eval_tree ! 0) (drop 1 eval_tree) s1))"
| "and_loop h n [] f s = ret (VBool True) s"
| "and_loop h n (sub_tree # rest) f s =
     bind_res (evaluate h n sub_tree f s) (\<lambda>v s1.
       if \<not> truthy h v then ret (VBool False) s1
       else and_loop h n rest f s1)"
| "or_loop h n [] f s = ret (VBool False) s"
| "or_loop h n (sub_tree # rest) f s =
     bind_res (evaluate h n sub_tree f s) (\<lambda>v s1.
       if truthy h v then ret (VBool True) s1
       else or_loop h n rest f s1)"
| "let_loop h n [] baby_frame s = ret () s"
| "let_loop h n (sub_tree # rest) baby_frame s =
     (case ast_index sub_tree 1 of
        Inl e \<Rightarrow> raise e s
      | Inr expr \<Rightarrow>
          bind_res (evaluate h n expr baby_frame s) (\<lambda>v s1.
            case ast_index sub_tree 0 of
              Inl e \<Rightarrow> raise e s1
            | Inr var \<Rightarrow>
                (case setitem s1 baby_frame var v of
                   Inl e \<Rightarrow> raise e s1
                 | Inr s2 \<Rightarrow> let_loop h n rest baby_frame s2)))"
| "elements_loop h n [] f s = ret [] s"
| "elements_loop h n (element # rest) f s =
     bind_res (evaluate h n element f s) (\<lambda>v s1.
       bind_res (elements_loop h n rest f s1) (\<lambda>vs s2. ret (v # vs) s2))"
| "call h n VSum arg s = lift (py_sum h arg) s"
| "call h 0 (VFunction a) arg s = raise RecursionError s"
| "call h (Suc n) (VFunction a) arg s =
     (let (func_frame, s0) = new_Frame (Some (frame (closures s ! a))) s
      in case ast_items (paramaters (closures s ! a)) of
           Inl e \<Rightarrow> raise e s0
         | Inr ps \<Rightarrow>
             if length ps \<noteq> length arg then raise SchemeEvaluationError s0
             else
               bind_res (bind_params func_frame (zip arg ps) s0) (\<lambda>u s1.
                 evaluate h n (code (closures s ! a)) func_frame s1))"
| "call h 0 (VMethod b m) arg s = raise RecursionError s"
| "call h (Suc n) (VMethod b m) arg s =
     (case m of
        M_minus \<Rightarrow> lift (minus_m h arg) s
      | M_product \<Rightarrow> lift (product_m h arg) s
      | M_division \<Rightarrow> lift (division h arg) s
      | M_greater \<Rightarrow> lift (greater h arg) s
      | M_lesser \<Rightarrow> lift (lesser h arg) s
      | M_greatereq \<Rightarrow> lift (greatereq h arg) s
      | M_lessereq \<Rightarrow> lift (lessereq h arg) s
      | M_equal \<Rightarrow> lift (equal_m h arg) s
      | M_not_it \<Rightarrow> lift (not_it h arg) s
      | M_cons \<Rightarrow> cons arg s
      | M_car \<Rightarrow> lift (car s arg) s
      | M_cdr \<Rightarrow> lift (cdr s arg) s
      | M_list \<Rightarrow> list_m arg s
      | M_islist \<Rightarrow> lift (map_sum id VBool (islist (Suc n) s arg)) s
      | M_append \<Rightarrow> append_m (Suc n) arg s
      | M_list_length \<Rightarrow> bind_pure (list_length (Suc n) s arg) s (\<lambda>v. ret v s)
      | M_list_indexing \<Rightarrow> bind_pure (list_indexing h (Suc n) s arg) s (\<lambda>v. ret v s)
      | M_map_func \<Rightarrow> map_func h (Suc n) arg s
      | M_filter \<Rightarrow> filter_m h (Suc n) arg s
      | M_reduce \<Rightarrow> reduce h (Suc n) arg s
      | M_beign \<Rightarrow> lift (beign arg) s)"
| "call h n (VInt i) arg s = raise TypeError s"
| "call h n (VFloat x) arg s = raise TypeError s"
| "call h n (VBool t) arg s = raise TypeError s"
| "call h n (VPair a) arg s = raise TypeError s"
| "call h n VNill arg s = raise TypeError s"
| "map_func h 0 listy s = raise RecursionError s"
| "map_func h (Suc n) listy s =
     (case index listy 0 of
        Inl e \<Rightarrow> raise e s
      | Inr func \<Rightarrow>
          (case index listy 1 of
             Inl e \<Rightarrow> raise e s
           | Inr old_list \<Rightarrow>
               if old_list = VNill then ret VNill s
               else (case car s [old_list] of
                       Inl e \<Rightarrow> raise e s
                     | Inr x \<Rightarrow>
                         bind_res (call h n func [x] s) (\<lambda>y s1.
                           case cdr s1 [old_list] of
                             Inl e \<Rightarrow> raise e s1
                           | Inr d \<Rightarrow>
                               bind_res (map_func h n [func, d] s1) (\<lambda>r s2.
                                 new_Pair y r s2)))))"
| "filter_m h 0 listy s = raise RecursionError s"
| "filter_m h (Suc n) listy s =
     (case index listy 0 of
        Inl e \<Rightarrow> raise e s
      | Inr func \<Rightarrow>
          (case index listy 1 of
             Inl e \<Rightarrow> raise e s
           | Inr old_list \<Rightarrow>
               if old_list = VNill then ret VNill s
               else (case car s [old_list] of
                       Inl e \<Rightarrow> raise e s
                     | Inr x \<Rightarrow>
                         bind_res (call h n func [x] s) (\<lambda>t s1.
                           if truthy h t then
                             (case attr_car s1 old_list of
                                Inl e \<Rightarrow> raise e s1
                              | Inr a \<Rightarrow>
                                  (case attr_cdr s1 old_list of
                                     Inl e \<Rightarrow> raise e s1
                                   | Inr d \<Rightarrow>
                                       bind_res (filter_m h n [func, d] s1) (\<lambda>r s2.
                                         new_Pair a r s2)))
                           else
                             (case cdr s1 [old_list] of
                                Inl e \<Rightarrow> raise e s1
                              | Inr d \<Rightarrow> filter_m h n [func, d] s1)))))"
| "reduce h 0 listy s = raise RecursionError s"
| "reduce h (Suc n) listy s =
     (case index listy 0 of
        Inl e \<Rightarrow> raise e s
      | Inr func \<Rightarrow>
          (case index listy 1 of
             Inl e \<Rightarrow> raise e s
           | Inr tree \<Rightarrow>
               (case index listy 2 of
                  Inl e \<Rightarrow> raise e s
                | Inr v \<Rightarrow>
                    if tree = VNill then ret v s
                    else (case attr_cdr s tree of
                            Inl e \<Rightarrow> raise e s
                          | Inr d \<Rightarrow>
                              (case attr_car s tree of
                                 Inl e \<Rightarrow> raise e s
                               | Inr a \<Rightarrow>
                                   bind_res (call h n func [v, a] s) (\<lambda>acc s1.
                                     reduce h n [func, d, acc] s1))))))"
  by pat_completeness simp_all
termination
  by (relation "measures
      [case_sum (case_sum (case_sum (\<lambda>p. fst (snd p)) (\<lambda>p. fst (snd p))) (case_sum (\<lambda>p. fst (snd p)) (\<lambda>p. fst (snd p))))
         (case_sum (case_sum (\<lambda>p. fst (snd p)) (\<lambda>p. fst (snd p))) (case_sum (\<lambda>p. fst (snd p)) (case_sum (\<lambda>p. fst (snd p)) (\<lambda>p. fst (snd p))))),
       case_sum (case_sum (case_sum (\<lambda>p. 0) (\<lambda>p. Suc (length (fst (snd (snd p))))))
            (case_sum (\<lambda>p. Suc (length (fst (snd (snd p))))) (\<lambda>p. Suc (length (fst (snd (snd p)))))))
         (case_sum (case_sum (\<lambda>p. Suc (length (fst (snd (snd p))))) (\<lambda>p. Suc 0)) (case_sum (\<lambda>p. 0) (case_sum (\<lambda>p. 0) (\<lambda>p. 0))))]")
     simp_all

declare evaluate.simps [simp del] and_loop.simps [simp del] or_loop.simps [simp del]
  let_loop.simps [simp del] elements_loop.simps [simp del] call.simps [simp del]
  map_func.simps [simp del] filter_m.simps [simp del] reduce.simps [simp del]

text \<open>
  \<^verbatim>\<open>evaluate(tree)\<close> without a frame, and \<^verbatim>\<open>result_and_frame\<close>: the tree is evaluated
  in a new frame whose parent is a new \<^verbatim>\<open>Builtin\<close> object.
\<close>

definition result_and_frame :: "host \<Rightarrow> nat \<Rightarrow> ast \<Rightarrow> nat option \<Rightarrow> state \<Rightarrow> (val \<times> nat) res" where
  "result_and_frame h n tree fo s =
     (case fo of
        None \<Rightarrow>
          (let (f, s0) = new_Frame None s
           in bind_res (evaluate h n tree f s0) (\<lambda>v s1. ret (v, f) s1))
      | Some f \<Rightarrow> bind_res (evaluate h n tree f s) (\<lambda>v s1. ret (v, f) s1))"

subsection \<open>The parser\<close>

definition number_or_symbol :: "host \<Rightarrow> string \<Rightarrow> ast" where
  "number_or_symbol h v =
     (case int_of_str h v of
        Some i \<Rightarrow> Num i
      | None \<Rightarrow>
          (case float_of_str h v of
             Some x \<Rightarrow> Flt x
           | None \<Rightarrow> Sym v))"

text \<open>
  \<open>parse_expression\<close> is the inner function of \<^verbatim>\<open>parse\<close>, \<open>parse_while\<close> its
  \<^verbatim>\<open>while\<close> loop with the variables \<^verbatim>\<open>index\<close> and \<^verbatim>\<open>subexpression\<close>. The loop runs
  inside \<^verbatim>\<open>try\<close>: an \<^verbatim>\<open>IndexError\<close> that leaves it becomes a \<^verbatim>\<open>SchemeSyntaxError\<close>.
\<close>

fun parse_expression :: "host \<Rightarrow> string list \<Rightarrow> nat \<Rightarrow> nat \<Rightarrow> (error + ast \<times> nat) option"
  and parse_while :: "host \<Rightarrow> string list \<Rightarrow> nat \<Rightarrow> nat \<Rightarrow> ast list \<Rightarrow> (error + ast \<times> nat) option"
where
  "parse_expression h tokens 0 i = None"
| "parse_expression h tokens (Suc n) i =
     (case index tokens i of
        Inl e \<Rightarrow> Some (Inl e)
      | Inr tok \<Rightarrow>
          if tok = '')'' then Some (Inl SchemeSyntaxError)
          else if tok = ''(''  then
            (case parse_while h tokens n (i + 1) [] of
               None \<Rightarrow> None
             | Some (Inl e) \<Rightarrow>
                 Some (Inl (if e = IndexError then SchemeSyntaxError else e))
             | Some (Inr r) \<Rightarrow> Some (Inr r))
          else Some (Inr (number_or_symbol h tok, i + 1)))"
| "parse_while h tokens 0 i subexpression = None"
| "parse_while h tokens (Suc n) i subexpression =
     (case index tokens i of
        Inl e \<Rightarrow> Some (Inl e)
      | Inr tok \<Rightarrow>
          if tok \<noteq> '')'' then
            (if int (length tokens) - 1 = int i then Some (Inl SchemeSyntaxError)
             else case parse_expression h tokens n i of
                    None \<Rightarrow> None
                  | Some (Inl e) \<Rightarrow> Some (Inl e)
                  | Some (Inr (next_val, i')) \<Rightarrow>
                      parse_while h tokens n i' (subexpression @ [next_val]))
          else Some (Inr (Lst subexpression, i + 1)))"

definition parse :: "host \<Rightarrow> nat \<Rightarrow> string list \<Rightarrow> (error + ast) option" where
  "parse h n tokens =
     (case parse_expression h tokens n 0 of
        None \<Rightarrow> None
      | Some (Inl e) \<Rightarrow> Some (Inl e)
      | Some (Inr (answer, i)) \<Rightarrow>
          if length tokens \<noteq> i then Some (Inl SchemeSyntaxError)
          else Some (Inr answer))"

subsection \<open>Well-formed token sequences\<close>

text \<open>
  The grammar that the parser is measured against: an expression is one token other than a
  parenthesis, read by \<open>number_or_symbol\<close>, or the expressions of a sequence between
  \<^verbatim>\<open>(\<close> and its \<^verbatim>\<open>)\<close>. This is the grammar of the language, written down
  independently of \<open>parse_expression\<close>; \<open>slice\<close> is the host's \<^verbatim>\<open>tokens[i:j]\<close>
  for \<open>i \<le> j\<close>.
\<close>

inductive well_formed :: "host \<Rightarrow> string list \<Rightarrow> ast \<Rightarrow> bool"
  and well_formed_seq :: "host \<Rightarrow> string list \<Rightarrow> ast list \<Rightarrow> bool"
  for h :: host
where
  atom: "tok \<noteq> ''('' \<Longrightarrow> tok \<noteq> '')'' \<Longrightarrow> well_formed h [tok] (number_or_symbol h tok)"
| form: "well_formed_seq h toks ts \<Longrightarrow> well_formed h (''('' # toks @ ['')'']) (Lst ts)"
| none: "well_formed_seq h [] []"
| more: "well_formed h toks1 t \<Longrightarrow> well_formed_seq h toks2 ts \<Longrightarrow>
         well_formed_seq h (toks1 @ toks2) (t # ts)"

definition slice :: "'a list \<Rightarrow> nat \<Rightarrow> nat \<Rightarrow> 'a list" where
  "slice xs i j = take (j - i) (drop i xs)"

subsection \<open>A host for integer programs\<close>

text \<open>
  The examples below run on a host that reads decimal integers and has no floats: a
  float literal is rejected, a conversion to float overflows.
\<close>

definition digit :: "char \<Rightarrow> nat option" where
  "digit c =
     (let k = (of_char c :: nat)
      in if 48 \<le> k \<and> k \<le> 57 then Some (k - 48) else None)"

fun digits :: "nat \<Rightarrow> string \<Rightarrow> nat option" where
  "digits acc [] = Some acc"
| "digits acc (c # cs) =
     (case digit c of
        None \<Rightarrow> None
      | Some d \<Rightarrow> digits (10 * acc + d) cs)"

definition decimal :: "string \<Rightarrow> int option" where
  "decimal v =
     (case v of
        [] \<Rightarrow> None
      | c # cs \<Rightarrow>
          if c = CHR ''-'' \<or> c = CHR ''+'' then
            (if cs = [] then None
             else map_option (\<lambda>k. if c = CHR ''-'' then - int k else int k) (digits 0 cs))
          else map_option int (digits 0 v))"

definition int_host :: host where
  "int_host =
     \<lparr>int_of_str = decimal,
      float_of_str = (\<lambda>v. None),
      float_of_int = (\<lambda>i. None),
      int_truediv = (\<lambda>a b. None),
      float_arith = (\<lambda>ope x y. x),
      float_neg = (\<lambda>x. x),
      float_cmp = (\<lambda>x y. Unordered),
      float_cmp_int = (\<lambda>x i. Unordered)\<rparr>"

text \<open>The store after \<^verbatim>\<open>Frame()\<close>: a \<^verbatim>\<open>Builtin\<close> object at 0 and an empty frame at 1.\<close>

definition fresh :: state where
  "fresh = snd (new_Frame None empty_state)"

subsection \<open>Stores that the program builds\<close>

text \<open>
  Every frame is created after its parent: in a store built by the program the parent
  of a frame has the smaller index.
\<close>

definition wf_frames :: "state \<Rightarrow> bool" where
  "wf_frames s =
     (\<forall>g \<in> set [0..<length (frames s)].
        case parent_frame (frames s ! g) of None \<Rightarrow> True | Some p \<Rightarrow> p < g)"

text \<open>The same for the frames up to \<open>f\<close>, which are those a lookup from \<open>f\<close> can visit.\<close>

definition wf_upto :: "state \<Rightarrow> nat \<Rightarrow> bool" where
  "wf_upto s f =
     (\<forall>g \<in> set [0..<Suc f].
        g < length (frames s) \<and>
        (case parent_frame (frames s ! g) of None \<Rightarrow> True | Some p \<Rightarrow> p < g))"

text \<open>The frames that a lookup from the frame \<open>f\<close> visits, nearest first.\<close>

function chain :: "state \<Rightarrow> nat \<Rightarrow> nat list" where
  "chain s f =
     f # (case parent_frame (frames s ! f) of
            None \<Rightarrow> []
          | Some p \<Rightarrow> if p < f then chain s p else [])"
  by pat_completeness auto
termination
  by (relation "measure (\<lambda>(s, f). f)") auto

declare chain.simps [simp del]

definition binds :: "state \<Rightarrow> ast \<Rightarrow> nat \<Rightarrow> bool" where
  "binds s var g = (map_of (bindings (frames s ! g)) var \<noteq> None)"

text \<open>The nearest frame of the chain of \<open>f\<close> that has a binding for \<open>var\<close>.\<close>

definition nearest :: "state \<Rightarrow> nat \<Rightarrow> ast \<Rightarrow> nat option" where
  "nearest s f var = find (binds s var) (chain s f)"


text \<open>
  Two stores for the examples: \<open>store_x\<close> is \<open>fresh\<close> after \<^verbatim>\<open>(define x 5)\<close> in the
  frame 1, and \<open>store_x_child\<close> has a further, empty frame 2 below the frame 1.
\<close>

definition store_x :: state where
  "store_x = bind_frame 1 (Sym ''x'') (VInt 5) fresh"

definition store_x_child :: state where
  "store_x_child = snd (new_Frame (Some 1) store_x)"




text \<open>
  What an evaluation keeps of the frames of a store: \<open>frames_kept cur s s'\<close> holds when
  every frame of \<open>s\<close> is a frame of \<open>s'\<close> with the same parent and, but for the frame
  \<open>cur\<close>, with bindings for the same names.
\<close>

definition keys :: "state \<Rightarrow> nat \<Rightarrow> ast set" where
  "keys s g = fst ` set (bindings (frames s ! g))"

definition frames_kept :: "nat option \<Rightarrow> state \<Rightarrow> state \<Rightarrow> bool" where
  "frames_kept cur s s' =
     (length (frames s) \<le> length (frames s') \<and>
      (\<forall>g < length (frames s).
         parent_frame (frames s' ! g) = parent_frame (frames s ! g) \<and>
         (Some g \<noteq> cur \<longrightarrow> keys s' g = keys s g)))"

text \<open>
  \<open>let_ab\<close> is the tree of \<^verbatim>\<open>(let ((a 1) (b a)) b)\<close>, and \<open>store_let\<close> is \<open>fresh\<close> after
  its evaluation in the frame 1.
\<close>

definition let_ab :: ast where
  "let_ab = Lst [Sym ''let'', Lst [Lst [Sym ''a'', Num 1], Lst [Sym ''b'', Sym ''a'']], Sym ''b'']"

definition store_let :: state where
  "store_let = snd (the (evaluate int_host 10 let_ab 1 fresh))"

section \<open>Properties\<close>

subsection \<open>Reading a sequence\<close>

lemma index_Cons_0 [simp]: "index (x # xs) 0 = Inr x"
  by (simp add: index_def)

lemma index_Cons_Suc [simp]: "index (x # xs) (Suc i) = index xs i"
  by (simp add: index_def)

lemma index_Nil [simp]: "index [] i = Inl IndexError"
  by (simp add: index_def)

lemma index_Cons_numeral [simp]: "index (x # xs) (numeral k) = index xs (pred_numeral k)"
  by (simp add: index_def numeral_eq_Suc)

lemma index_Cons_1 [simp]: "index (x # xs) 1 = index xs 0"
  by (simp add: index_def)

subsection \<open>Lookup along the chain of frames\<close>

lemma wf_framesD:
  "wf_frames s \<Longrightarrow> g < length (frames s) \<Longrightarrow> parent_frame (frames s ! g) = Some p \<Longrightarrow> p < g"
  by (auto simp: wf_frames_def split: option.splits)

lemma wf_uptoD:
  "wf_upto s f \<Longrightarrow> g \<le> f \<Longrightarrow> parent_frame (frames s ! g) = Some p \<Longrightarrow> p < g"
  by (auto simp: wf_upto_def split: option.splits)

lemma wf_upto_le: "wf_upto s f \<Longrightarrow> g \<le> f \<Longrightarrow> wf_upto s g"
  by (auto simp: wf_upto_def)

lemma wf_frames_upto: "wf_frames s \<Longrightarrow> f < length (frames s) \<Longrightarrow> wf_upto s f"
  by (auto simp: wf_frames_def wf_upto_def)

lemma getitem_nearest_upto:
  "wf_upto s f \<Longrightarrow> hashable var \<Longrightarrow>
   getitem s f var =
     (case nearest s f var of
        None \<Rightarrow> Inl SchemeNameError
      | Some g \<Rightarrow> Inr (the (map_of (bindings (frames s ! g)) var)))"
proof (induction f rule: less_induct)
  case (less f)
  show ?case
  proof (cases "map_of (bindings (frames s ! f)) var")
    case (Some v)
    then show ?thesis
      using less.prems
      by (simp add: getitem.simps [of s f] chain.simps [of s f] nearest_def binds_def)
  next
    case None
    show ?thesis
    proof (cases "parent_frame (frames s ! f)")
      case None': None
      with None less.prems show ?thesis
        by (simp add: getitem.simps [of s f] chain.simps [of s f] nearest_def binds_def)
    next
      case (Some p)
      then have "p < f" using less.prems wf_uptoD by blast
      with less.IH [of p] less.prems have
        "getitem s p var =
           (case nearest s p var of
              None \<Rightarrow> Inl SchemeNameError
            | Some g \<Rightarrow> Inr (the (map_of (bindings (frames s ! g)) var)))"
        by (simp add: wf_upto_le)
      with None Some \<open>p < f\<close> less.prems show ?thesis
        by (simp add: getitem.simps [of s f] chain.simps [of s f] nearest_def binds_def)
    qed
  qed
qed

lemma set_exisits_nearest_upto:
  "wf_upto s f \<Longrightarrow> hashable var \<Longrightarrow>
   set_exisits s f var v =
     (case nearest s f var of
        None \<Rightarrow> Inl AttributeError
      | Some g \<Rightarrow> Inr (bind_frame g var v s))"
proof (induction f rule: less_induct)
  case (less f)
  show ?case
  proof (cases "map_of (bindings (frames s ! f)) var")
    case (Some v)
    then show ?thesis
      using less.prems
      by (simp add: set_exisits.simps [of s f] chain.simps [of s f] nearest_def binds_def)
  next
    case None
    show ?thesis
    proof (cases "parent_frame (frames s ! f)")
      case None': None
      with None less.prems show ?thesis
        by (simp add: set_exisits.simps [of s f] chain.simps [of s f] nearest_def binds_def)
    next
      case (Some p)
      then have "p < f" using less.prems wf_uptoD by blast
      with less.IH [of p] less.prems have
        "set_exisits s p var v =
           (case nearest s p var of
              None \<Rightarrow> Inl AttributeError
            | Some g \<Rightarrow> Inr (bind_frame g var v s))"
        by (simp add: wf_upto_le)
      with None Some \<open>p < f\<close> less.prems show ?thesis
        by (simp add: set_exisits.simps [of s f] chain.simps [of s f] nearest_def binds_def)
    qed
  qed
qed

lemma getitem_nearest:
  "wf_frames s \<Longrightarrow> f < length (frames s) \<Longrightarrow> hashable var \<Longrightarrow>
   getitem s f var =
     (case nearest s f var of
        None \<Rightarrow> Inl SchemeNameError
      | Some g \<Rightarrow> Inr (the (map_of (bindings (frames s ! g)) var)))"
  by (rule getitem_nearest_upto) (simp_all add: wf_frames_upto)

lemma set_exisits_nearest:
  "wf_frames s \<Longrightarrow> f < length (frames s) \<Longrightarrow> hashable var \<Longrightarrow>
   set_exisits s f var v =
     (case nearest s f var of
        None \<Rightarrow> Inl AttributeError
      | Some g \<Rightarrow> Inr (bind_frame g var v s))"
  by (rule set_exisits_nearest_upto) (simp_all add: wf_frames_upto)

lemma chain_le: "g \<in> set (chain s f) \<Longrightarrow> g \<le> f"
proof (induction f rule: less_induct)
  case (less f)
  then show ?case
    using chain.simps [of s f] by (force split: option.splits if_splits)
qed

lemma chain_suffix: "g \<in> set (chain s f) \<Longrightarrow> \<exists>pre. chain s f = pre @ chain s g"
proof (induction f rule: less_induct)
  case (less f)
  show ?case
  proof (cases "g = f")
    case True
    then show ?thesis by auto
  next
    case False
    with less.prems obtain p where p: "parent_frame (frames s ! f) = Some p" "p < f"
      "g \<in> set (chain s p)"
      using chain.simps [of s f] by (auto split: option.splits if_splits)
    with less.IH [of p] obtain pre where "chain s p = pre @ chain s g" by auto
    with p have "chain s f = (f # pre) @ chain s g"
      using chain.simps [of s f] by simp
    then show ?thesis by blast
  qed
qed

lemma nearest_in_chain:
  "nearest s f var = Some g \<Longrightarrow> g \<in> set (chain s f) \<and> binds s var g"
  by (auto simp: nearest_def find_Some_iff)

lemma nearest_self: "binds s var g \<Longrightarrow> nearest s g var = Some g"
  by (simp add: nearest_def chain.simps [of s g])

lemma frames_bind_frame [simp]: "length (frames (bind_frame g var v s)) = length (frames s)"
  by (simp add: bind_frame_def)

lemma parent_bind_frame [simp]:
  "parent_frame (frames (bind_frame g var v s) ! k) = parent_frame (frames s ! k)"
  by (cases "g < length (frames s)") (simp_all add: bind_frame_def nth_list_update not_less list_update_beyond)

lemma wf_bind_frame [simp]: "wf_frames (bind_frame g var v s) = wf_frames s"
  by (simp add: wf_frames_def)

lemma chain_bind_frame [simp]: "chain (bind_frame g var v s) f = chain s f"
proof (induction f rule: less_induct)
  case (less f)
  show ?case
    using chain.simps [of "bind_frame g var v s" f] chain.simps [of s f]
    by (auto split: option.splits simp: less.IH)
qed

lemma map_of_update_None: "map_of (AList.update k v al) k' = None \<longleftrightarrow> k' \<noteq> k \<and> map_of al k' = None"
  by (simp add: update_conv')

lemma binds_bind_frame:
  "binds s var g \<Longrightarrow> binds (bind_frame g var v s) var' k = binds s var' k"
proof (cases "g < length (frames s) \<and> k = g")
  case True
  assume "binds s var g"
  with True show ?thesis
    by (cases "var' = var") (simp_all add: binds_def bind_frame_def update_conv')
next
  case False
  then show ?thesis
    by (cases "g < length (frames s)")
       (simp_all add: binds_def bind_frame_def nth_list_update not_less list_update_beyond)
qed

lemma nearest_bind_frame:
  "binds s var g \<Longrightarrow> nearest (bind_frame g var v s) f var' = nearest s f var'"
  by (simp add: nearest_def binds_bind_frame cong: find_cong)

lemma map_of_bind_frame:
  "g < length (frames s) \<Longrightarrow> map_of (bindings (frames (bind_frame g var v s) ! g)) var = Some v"
  by (simp add: bind_frame_def update_conv')

lemma wf_upto_bind_frame [simp]: "wf_upto (bind_frame g var v s) f = wf_upto s f"
  by (simp add: wf_upto_def)

lemma getitem_after_bind_upto:
  assumes "wf_upto s f" "hashable var" "nearest s f var = Some g"
  shows "getitem (bind_frame g var v s) f var = Inr v"
    and "getitem (bind_frame g var v s) g var = Inr v"
proof -
  from assms(3) have g: "g \<in> set (chain s f)" "binds s var g"
    using nearest_in_chain by auto
  then have le: "g \<le> f" using chain_le by blast
  with assms have gl: "g < length (frames s)" by (auto simp: wf_upto_def)
  from le assms have wg: "wf_upto s g" using wf_upto_le by blast
  show "getitem (bind_frame g var v s) f var = Inr v"
    using assms g gl
    by (simp add: getitem_nearest_upto nearest_bind_frame map_of_bind_frame)
  show "getitem (bind_frame g var v s) g var = Inr v"
    using assms g gl wg
    by (simp add: getitem_nearest_upto nearest_bind_frame nearest_self map_of_bind_frame)
qed

subsection \<open>Equality with \<^verbatim>\<open>True\<close>\<close>

lemma py_eq_True:
  "py_eq h v (VBool True) \<longleftrightarrow>
     v = VBool True \<or> v = VInt 1 \<or> (\<exists>x. v = VFloat x \<and> float_cmp_int h x 1 = Eq)"
  by (cases v) (auto simp: py_eq_def)

subsection \<open>The special forms, one equation each\<close>

lemma evaluate_Num: "evaluate h (Suc n) (Num i) f s = Some (Inr (VInt i), s)"
  by (simp add: evaluate.simps ret_def)

lemma evaluate_Sym: "evaluate h (Suc n) (Sym name) f s = Some (getitem s f (Sym name), s)"
  by (simp add: evaluate.simps lift_def)

lemma evaluate_if:
  "evaluate h (Suc n) (Lst [Sym ''if'', c, t, e]) f s =
     bind_res (evaluate h n c f s) (\<lambda>v s1.
       if py_eq h v (VBool True) then evaluate h n t f s1 else evaluate h n e f s1)"
  by (simp add: evaluate.simps cong: if_cong)

lemma evaluate_del:
  "evaluate h (Suc n) (Lst [Sym ''del'', t1]) f s =
     bind_res (evaluate h n t1 f s) (\<lambda>u s1. Some (delete s1 f t1))"
  by (simp add: evaluate.simps)

lemma evaluate_set:
  "evaluate h (Suc n) (Lst [Sym ''set!'', t1, t2]) f s =
     (case getitem s f t1 of
        Inl e \<Rightarrow> Some (Inl e, s)
      | Inr old \<Rightarrow>
          bind_res (evaluate h n t2 f s) (\<lambda>temp s1.
            case set_exisits s1 f t1 temp of
              Inl e \<Rightarrow> Some (Inl e, s1)
            | Inr s2 \<Rightarrow> Some (Inr temp, s2)))"
  by (simp add: evaluate.simps raise_def ret_def cong: sum.case_cong)

lemma getitem_here:
  "map_of (bindings (frames s ! f)) (Sym name) = Some v \<Longrightarrow> getitem s f (Sym name) = Inr v"
  by (simp add: getitem.simps [of s f])

lemma nearest_not_here:
  "nearest s f var = Some g \<Longrightarrow> g \<noteq> f \<Longrightarrow> map_of (bindings (frames s ! f)) var = None"
  by (auto simp: nearest_def chain.simps [of s f] binds_def split: if_splits)

subsection \<open>The form \<^verbatim>\<open>if\<close>\<close>

text \<open>
  C1, as the source has it. \<^verbatim>\<open>(if cond then else)\<close> evaluates \<^verbatim>\<open>cond\<close> and compares
  the result with \<^verbatim>\<open>== True\<close>: the \<^verbatim>\<open>then\<close> branch is evaluated exactly when the
  result is the boolean true, the integer 1 or a float equal to 1, in the store that
  \<^verbatim>\<open>cond\<close> left; every other result evaluates the \<^verbatim>\<open>else\<close> branch. The result of the
  form is the result of that one branch, so the other branch is not evaluated, and an
  exception of \<^verbatim>\<open>cond\<close> is the exception of the form. In particular \<^verbatim>\<open>(if 0 1 2)\<close> is 2.
\<close>

theorem if_compares_with_True:
  "evaluate h (Suc n) (Lst [Sym ''if'', c, t, e]) f s =
     (case evaluate h n c f s of
        None \<Rightarrow> None
      | Some (Inl err, s1) \<Rightarrow> Some (Inl err, s1)
      | Some (Inr v, s1) \<Rightarrow>
          if v = VBool True \<or> v = VInt 1 \<or> (\<exists>x. v = VFloat x \<and> float_cmp_int h x 1 = Eq)
          then evaluate h n t f s1
          else evaluate h n e f s1)
   \<and> evaluate h (Suc (Suc n)) (Lst [Sym ''if'', Num 0, Num 1, Num 2]) f s
       = Some (Inr (VInt 2), s)"
proof
  show "evaluate h (Suc n) (Lst [Sym ''if'', c, t, e]) f s =
     (case evaluate h n c f s of
        None \<Rightarrow> None
      | Some (Inl err, s1) \<Rightarrow> Some (Inl err, s1)
      | Some (Inr v, s1) \<Rightarrow>
          if v = VBool True \<or> v = VInt 1 \<or> (\<exists>x. v = VFloat x \<and> float_cmp_int h x 1 = Eq)
          then evaluate h n t f s1
          else evaluate h n e f s1)"
  proof (cases "evaluate h n c f s")
    case None
    then show ?thesis by (simp add: evaluate_if)
  next
    case (Some r)
    then show ?thesis
      by (cases r; cases "fst r") (simp_all add: evaluate_if py_eq_True)
  qed
  show "evaluate h (Suc (Suc n)) (Lst [Sym ''if'', Num 0, Num 1, Num 2]) f s
       = Some (Inr (VInt 2), s)"
    by (simp add: evaluate_if evaluate_Num py_eq_True)
qed

text \<open>
  C1 as stated fails: the number 1 is not the boolean true, and \<^verbatim>\<open>(if 1 10 20)\<close>
  evaluates the \<^verbatim>\<open>then\<close> branch.
\<close>

theorem if_one_takes_then_branch:
  "evaluate int_host 2 (Lst [Sym ''if'', Num 1, Num 10, Num 20]) 1 fresh
     = Some (Inr (VInt 10), fresh)"
  by (simp add: numeral_2_eq_2 evaluate_if evaluate_Num py_eq_True)

subsection \<open>The parser on no tokens\<close>

text \<open>
  C6. A token sequence without tokens is what \<^verbatim>\<open>tokenize\<close> returns for an empty line
  or a comment. \<^verbatim>\<open>parse\<close> reads \<^verbatim>\<open>tokens[0]\<close> outside its \<^verbatim>\<open>try\<close>, so the host's
  \<^verbatim>\<open>IndexError\<close> leaves \<^verbatim>\<open>parse\<close>: it neither succeeds nor raises a
  \<^verbatim>\<open>SchemeSyntaxError\<close>.
\<close>

theorem parse_no_tokens:
  "parse h (Suc n) [] = Some (Inl IndexError)"
  by (simp add: parse_def)

text \<open>
  On one token or more the parser is exact. With fuel beyond twice the number of tokens it
  returns; what it returns is the tree of the token sequence when the sequence is well
  formed, and a \<^verbatim>\<open>SchemeSyntaxError\<close> when it is not.
\<close>

lemma slice_self [simp]: "slice xs i i = []"
  by (simp add: slice_def)

lemma slice_one: "i < length xs \<Longrightarrow> slice xs i (Suc i) = [xs ! i]"
  by (simp add: slice_def take_Suc_conv_app_nth [of 0] hd_drop_conv_nth take_Suc)

lemma slice_append:
  "i \<le> j \<Longrightarrow> j \<le> k \<Longrightarrow> slice xs i k = slice xs i j @ slice xs j k"
proof -
  assume a: "i \<le> j" "j \<le> k"
  then have "k - i = (j - i) + (k - j)" by simp
  then have "take (k - i) (drop i xs) = take (j - i) (drop i xs) @ take (k - j) (drop (j - i) (drop i xs))"
    by (simp only: take_add)
  with a show ?thesis by (simp add: slice_def)
qed

lemma parse_sound_step:
  assumes PW: "\<And>i acc t j. parse_while h tokens n i acc = Some (Inr (t, j)) \<Longrightarrow>
      i < j \<and> j \<le> length tokens \<and>
      (\<exists>ts. t = Lst (acc @ ts) \<and> well_formed_seq h (slice tokens i (j - 1)) ts
         \<and> tokens ! (j - 1) = '')'')"
    and ev: "parse_expression h tokens (Suc n) i = Some (Inr (t, j))"
  shows "i < j \<and> j \<le> length tokens \<and> well_formed h (slice tokens i j) t"
proof -
  from ev have il: "i < length tokens"
    by (auto simp: index_def split: if_splits)
  show ?thesis
  proof (cases "tokens ! i = ''(''")
    case False
    with ev il have "tokens ! i \<noteq> '')''" "t = number_or_symbol h (tokens ! i)" "j = Suc i"
      by (auto simp: index_def split: if_splits)
    with False il show ?thesis
      by (simp add: slice_one atom)
  next
    case True
    with ev il have "parse_while h tokens n (Suc i) [] = Some (Inr (t, j))"
      by (auto simp: index_def split: if_splits option.splits sum.splits prod.splits)
    from PW [OF this] obtain ts where
      j: "Suc i < j" "j \<le> length tokens" and t: "t = Lst ts"
      and w: "well_formed_seq h (slice tokens (Suc i) (j - 1)) ts"
      and c: "tokens ! (j - 1) = '')''"
      by auto
    have "slice tokens i j = slice tokens i (Suc i) @ slice tokens (Suc i) (j - 1)
        @ slice tokens (j - 1) j"
      using j slice_append [of i "Suc i" j tokens] slice_append [of "Suc i" "j - 1" j tokens]
      by simp
    moreover have "slice tokens (j - 1) j = [tokens ! (j - 1)]"
      using j slice_one [of "j - 1" tokens] by simp
    ultimately have "slice tokens i j = ''('' # slice tokens (Suc i) (j - 1) @ ['')'']"
      using il True c by (simp add: slice_one)
    with form [OF w] t j show ?thesis by simp
  qed
qed

lemma parse_while_sound_step:
  assumes PE: "\<And>i t j. parse_expression h tokens n i = Some (Inr (t, j)) \<Longrightarrow>
      i < j \<and> j \<le> length tokens \<and> well_formed h (slice tokens i j) t"
    and PW: "\<And>i acc t j. parse_while h tokens n i acc = Some (Inr (t, j)) \<Longrightarrow>
      i < j \<and> j \<le> length tokens \<and>
      (\<exists>ts. t = Lst (acc @ ts) \<and> well_formed_seq h (slice tokens i (j - 1)) ts
         \<and> tokens ! (j - 1) = '')'')"
    and ev: "parse_while h tokens (Suc n) i acc = Some (Inr (t, j))"
  shows "i < j \<and> j \<le> length tokens \<and>
      (\<exists>ts. t = Lst (acc @ ts) \<and> well_formed_seq h (slice tokens i (j - 1)) ts
         \<and> tokens ! (j - 1) = '')'')"
proof -
  from ev have il: "i < length tokens"
    by (auto simp: index_def split: if_splits)
  show ?thesis
  proof (cases "tokens ! i = '')''")
    case True
    with ev il have "t = Lst acc" "j = Suc i"
      by (auto simp: index_def)
    with True il show ?thesis by (simp add: none)
  next
    case False
    with ev il obtain v k where
      e: "parse_expression h tokens n i = Some (Inr (v, k))"
      and w: "parse_while h tokens n k (acc @ [v]) = Some (Inr (t, j))"
      by (auto simp: index_def split: if_splits option.splits sum.splits prod.splits)
    from PE [OF e] have 1: "i < k" "k \<le> length tokens" "well_formed h (slice tokens i k) v"
      by auto
    from PW [OF w] obtain ts where 2: "k < j" "j \<le> length tokens"
      "t = Lst ((acc @ [v]) @ ts)" "well_formed_seq h (slice tokens k (j - 1)) ts"
      "tokens ! (j - 1) = '')''"
      by auto
    have "slice tokens i (j - 1) = slice tokens i k @ slice tokens k (j - 1)"
      using 1 2 slice_append [of i k "j - 1" tokens] by simp
    with more [OF 1(3) 2(4)] have "well_formed_seq h (slice tokens i (j - 1)) (v # ts)"
      by simp
    with 1 2 show ?thesis by auto
  qed
qed

lemma parse_sound_all:
  "(\<forall>i t j. parse_expression h tokens n i = Some (Inr (t, j)) \<longrightarrow>
      i < j \<and> j \<le> length tokens \<and> well_formed h (slice tokens i j) t)
   \<and> (\<forall>i acc t j. parse_while h tokens n i acc = Some (Inr (t, j)) \<longrightarrow>
      i < j \<and> j \<le> length tokens \<and>
      (\<exists>ts. t = Lst (acc @ ts) \<and> well_formed_seq h (slice tokens i (j - 1)) ts
         \<and> tokens ! (j - 1) = '')''))"
proof (induction n)
  case 0
  show ?case by simp
next
  case (Suc n)
  note PE = Suc [THEN conjunct1, rule_format]
  note PW = Suc [THEN conjunct2, rule_format]
  show ?case
  proof (rule conjI)
    show "\<forall>i t j. parse_expression h tokens (Suc n) i = Some (Inr (t, j)) \<longrightarrow>
      i < j \<and> j \<le> length tokens \<and> well_formed h (slice tokens i j) t"
      by (intro allI impI, rule parse_sound_step [where n = n]) (erule PW | assumption)+
    show "\<forall>i acc t j. parse_while h tokens (Suc n) i acc = Some (Inr (t, j)) \<longrightarrow>
      i < j \<and> j \<le> length tokens \<and>
      (\<exists>ts. t = Lst (acc @ ts) \<and> well_formed_seq h (slice tokens i (j - 1)) ts
         \<and> tokens ! (j - 1) = '')'')"
      by (intro allI impI, rule parse_while_sound_step [where n = n])
         (erule PE PW | assumption)+
  qed
qed

lemma parse_sound:
  "parse h n tokens = Some (Inr t) \<Longrightarrow> well_formed h tokens t"
proof -
  assume "parse h n tokens = Some (Inr t)"
  then have "parse_expression h tokens n 0 = Some (Inr (t, length tokens))"
    by (auto simp: parse_def split: option.splits sum.splits prod.splits if_splits)
  from parse_sound_all [THEN conjunct1, rule_format, OF this]
  show ?thesis by (simp add: slice_def)
qed

lemma well_formed_first:
  "well_formed h toks t \<Longrightarrow> toks \<noteq> [] \<and> hd toks \<noteq> '')''"
  by (erule well_formed.cases) auto

lemma index_append_mid [simp]: "index (pre @ x # post) (length pre) = Inr x"
  by (simp add: index_def)

lemma parse_complete_aux:
  shows "well_formed h toks t \<Longrightarrow>
      (\<forall>pre post n. 2 * (length toks + length post) < n \<longrightarrow>
         parse_expression h (pre @ toks @ post) n (length pre)
           = Some (Inr (t, length pre + length toks)))"
    and "well_formed_seq h toks' ts \<Longrightarrow>
      (\<forall>pre post n acc. 2 * (length toks' + 1 + length post) + 1 < n \<longrightarrow>
         parse_while h (pre @ toks' @ '')'' # post) n (length pre) acc
           = Some (Inr (Lst (acc @ ts), length pre + length toks' + 1)))"
proof (induction rule: well_formed_well_formed_seq.inducts)
  case (atom tok)
  show ?case
  proof (intro allI impI)
    fix pre post :: "string list" and n :: nat
    assume "2 * (length [tok] + length post) < n"
    then obtain m where "n = Suc m" by (cases n) auto
    with atom show "parse_expression h (pre @ [tok] @ post) n (length pre)
        = Some (Inr (number_or_symbol h tok, length pre + length [tok]))"
      by simp
  qed
next
  case (form toks ts)
  show ?case
  proof (intro allI impI)
    fix pre post :: "string list" and n :: nat
    assume n: "2 * (length (''('' # toks @ ['')'']) + length post) < n"
    then obtain m where m: "n = Suc m" by (cases n) auto
    with n have "2 * (length toks + 1 + length post) + 1 < m" by simp
    with form have "parse_while h ((pre @ [''('']) @ toks @ '')'' # post) m
        (length (pre @ [''('']))  []
        = Some (Inr (Lst ([] @ ts), length (pre @ [''('']) + length toks + 1))"
      by blast
    then have "parse_while h (pre @ (''('' # toks @ ['')'']) @ post) m (Suc (length pre)) []
        = Some (Inr (Lst ts, length pre + length (''('' # toks @ ['')''])))"
      by simp
    with m show "parse_expression h (pre @ (''('' # toks @ ['')'']) @ post) n (length pre)
        = Some (Inr (Lst ts, length pre + length (''('' # toks @ ['')''])))"
      by simp
  qed
next
  case none
  show ?case
  proof (intro allI impI)
    fix pre post :: "string list" and n :: nat and acc :: "ast list"
    assume "2 * (length ([]::string list) + 1 + length post) + 1 < n"
    then obtain m where "n = Suc m" by (cases n) auto
    then show "parse_while h (pre @ [] @ '')'' # post) n (length pre) acc
        = Some (Inr (Lst (acc @ []), length pre + length ([]::string list) + 1))"
      by simp
  qed
next
  case (more toks1 t toks2 ts)
  show ?case
  proof (intro allI impI)
    fix pre post :: "string list" and n :: nat and acc :: "ast list"
    assume n: "2 * (length (toks1 @ toks2) + 1 + length post) + 1 < n"
    then obtain m where m: "n = Suc m" by (cases n) auto
    from more obtain x xs where t1: "toks1 = x # xs" "x \<noteq> '')''"
      using well_formed_first [of h toks1 t] by (cases toks1) auto
    let ?tokens = "pre @ (toks1 @ toks2) @ '')'' # post"
    have ix: "index ?tokens (length pre) = Inr x"
      using t1 by simp
    have last: "int (length ?tokens) - 1 \<noteq> int (length pre)"
      using t1 by simp
    from n m have "2 * (length toks1 + length (toks2 @ '')'' # post)) < m" by simp
    with more have "parse_expression h (pre @ toks1 @ (toks2 @ '')'' # post)) m (length pre)
        = Some (Inr (t, length pre + length toks1))"
      by blast
    then have e: "parse_expression h ?tokens m (length pre)
        = Some (Inr (t, length pre + length toks1))"
      by simp
    from n m t1 have "2 * (length toks2 + 1 + length post) + 1 < m" by simp
    with more have "parse_while h ((pre @ toks1) @ toks2 @ '')'' # post) m
        (length (pre @ toks1)) (acc @ [t])
        = Some (Inr (Lst ((acc @ [t]) @ ts), length (pre @ toks1) + length toks2 + 1))"
      by blast
    then have w: "parse_while h ?tokens m (length pre + length toks1) (acc @ [t])
        = Some (Inr (Lst (acc @ t # ts), length pre + length (toks1 @ toks2) + 1))"
      by (simp add: add.assoc)
    from m ix last e w t1
    show "parse_while h ?tokens n (length pre) acc
        = Some (Inr (Lst (acc @ t # ts), length pre + length (toks1 @ toks2) + 1))"
      by (simp del: append_assoc)
  qed
qed

lemma parse_complete:
  "well_formed h tokens t \<Longrightarrow> 2 * length tokens < n \<Longrightarrow> parse h n tokens = Some (Inr t)"
  using parse_complete_aux(1) [of h tokens t, rule_format, of "[]" n "[]"]
  by (simp add: parse_def)

lemma parse_returns_step:
  assumes W: "\<And>i acc. i \<le> length tokens \<Longrightarrow> 2 * (length tokens - i) + 1 < n \<Longrightarrow>
      (\<exists>t j. parse_while h tokens n i acc = Some (Inr (t, j)))
      \<or> parse_while h tokens n i acc = Some (Inl SchemeSyntaxError)
      \<or> parse_while h tokens n i acc = Some (Inl IndexError)"
    and i: "i < length tokens" and n: "2 * (length tokens - i) < Suc n"
  shows "(\<exists>t j. parse_expression h tokens (Suc n) i = Some (Inr (t, j)))
      \<or> parse_expression h tokens (Suc n) i = Some (Inl SchemeSyntaxError)"
proof (cases "tokens ! i = ''(''")
  case False
  with i show ?thesis by (simp add: index_def)
next
  case True
  from i n have "Suc i \<le> length tokens" "2 * (length tokens - Suc i) + 1 < n" by auto
  from W [OF this, of "[]"] True i show ?thesis
    by (auto simp: index_def)
qed

lemma parse_while_returns_step:
  assumes E: "\<And>i. i < length tokens \<Longrightarrow> 2 * (length tokens - i) < n \<Longrightarrow>
      (\<exists>t j. parse_expression h tokens n i = Some (Inr (t, j)))
      \<or> parse_expression h tokens n i = Some (Inl SchemeSyntaxError)"
    and W: "\<And>i acc. i \<le> length tokens \<Longrightarrow> 2 * (length tokens - i) + 1 < n \<Longrightarrow>
      (\<exists>t j. parse_while h tokens n i acc = Some (Inr (t, j)))
      \<or> parse_while h tokens n i acc = Some (Inl SchemeSyntaxError)
      \<or> parse_while h tokens n i acc = Some (Inl IndexError)"
    and i: "i \<le> length tokens" and n: "2 * (length tokens - i) + 1 < Suc n"
  shows "(\<exists>t j. parse_while h tokens (Suc n) i acc = Some (Inr (t, j)))
      \<or> parse_while h tokens (Suc n) i acc = Some (Inl SchemeSyntaxError)
      \<or> parse_while h tokens (Suc n) i acc = Some (Inl IndexError)"
proof (cases "i < length tokens")
  case False
  then show ?thesis by (simp add: index_def)
next
  case il: True
  show ?thesis
  proof (cases "tokens ! i = '')'' \<or> int (length tokens) - 1 = int i")
    case True
    with il show ?thesis by (auto simp: index_def)
  next
    case False
    from il n have "2 * (length tokens - i) < n" by simp
    from E [OF il this] show ?thesis
    proof
      assume "parse_expression h tokens n i = Some (Inl SchemeSyntaxError)"
      with False il show ?thesis by (simp add: index_def)
    next
      assume "\<exists>t j. parse_expression h tokens n i = Some (Inr (t, j))"
      then obtain v k where e: "parse_expression h tokens n i = Some (Inr (v, k))" by blast
      from parse_sound_all [THEN conjunct1, rule_format, OF e]
      have k: "i < k" "k \<le> length tokens" by auto
      with n have "2 * (length tokens - k) + 1 < n" by auto
      from W [OF k(2) this, of "acc @ [v]"] e False il show ?thesis
        by (auto simp: index_def)
    qed
  qed
qed

lemma parse_returns_all:
  "(\<forall>i. i < length tokens \<longrightarrow> 2 * (length tokens - i) < n \<longrightarrow>
      (\<exists>t j. parse_expression h tokens n i = Some (Inr (t, j)))
      \<or> parse_expression h tokens n i = Some (Inl SchemeSyntaxError))
   \<and> (\<forall>i acc. i \<le> length tokens \<longrightarrow> 2 * (length tokens - i) + 1 < n \<longrightarrow>
      (\<exists>t j. parse_while h tokens n i acc = Some (Inr (t, j)))
      \<or> parse_while h tokens n i acc = Some (Inl SchemeSyntaxError)
      \<or> parse_while h tokens n i acc = Some (Inl IndexError))"
proof (induction n)
  case 0
  show ?case by simp
next
  case (Suc n)
  note E = Suc [THEN conjunct1, rule_format]
  note W = Suc [THEN conjunct2, rule_format]
  show ?case
  proof (rule conjI)
    show "\<forall>i. i < length tokens \<longrightarrow> 2 * (length tokens - i) < Suc n \<longrightarrow>
      (\<exists>t j. parse_expression h tokens (Suc n) i = Some (Inr (t, j)))
      \<or> parse_expression h tokens (Suc n) i = Some (Inl SchemeSyntaxError)"
      by (intro allI impI, rule parse_returns_step [where n = n]) (erule W | assumption)+
    show "\<forall>i acc. i \<le> length tokens \<longrightarrow> 2 * (length tokens - i) + 1 < Suc n \<longrightarrow>
      (\<exists>t j. parse_while h tokens (Suc n) i acc = Some (Inr (t, j)))
      \<or> parse_while h tokens (Suc n) i acc = Some (Inl SchemeSyntaxError)
      \<or> parse_while h tokens (Suc n) i acc = Some (Inl IndexError)"
      by (intro allI impI, rule parse_while_returns_step [where n = n])
         (erule E W | assumption)+
  qed
qed

lemma parse_of_tokens:
  assumes "tokens \<noteq> []" "2 * length tokens < n"
  shows "(well_formed h tokens t \<longrightarrow> parse h n tokens = Some (Inr t))
    \<and> ((\<forall>t'. \<not> well_formed h tokens t') \<longrightarrow> parse h n tokens = Some (Inl SchemeSyntaxError))
    \<and> (parse h n tokens = Some (Inr t) \<longrightarrow> well_formed h tokens t)"
proof (intro conjI impI)
  assume "well_formed h tokens t"
  with assms show "parse h n tokens = Some (Inr t)" by (simp add: parse_complete)
next
  assume nw: "\<forall>t'. \<not> well_formed h tokens t'"
  from assms have "0 < length tokens" "2 * (length tokens - 0) < n" by simp_all
  from parse_returns_all [THEN conjunct1, rule_format, OF this]
  have "(\<exists>t j. parse_expression h tokens n 0 = Some (Inr (t, j)))
      \<or> parse_expression h tokens n 0 = Some (Inl SchemeSyntaxError)" .
  then show "parse h n tokens = Some (Inl SchemeSyntaxError)"
  proof
    assume "parse_expression h tokens n 0 = Some (Inl SchemeSyntaxError)"
    then show ?thesis by (simp add: parse_def)
  next
    assume "\<exists>t j. parse_expression h tokens n 0 = Some (Inr (t, j))"
    then obtain t' j where e: "parse_expression h tokens n 0 = Some (Inr (t', j))" by blast
    show ?thesis
    proof (cases "j = length tokens")
      case True
      with e have "parse h n tokens = Some (Inr t')" by (simp add: parse_def)
      with nw parse_sound show ?thesis by blast
    next
      case False
      with e show ?thesis by (simp add: parse_def)
    qed
  qed
next
  assume "parse h n tokens = Some (Inr t)"
  then show "well_formed h tokens t" by (rule parse_sound)
qed

subsection \<open>Division by zero\<close>

lemma num_arith_error:
  "num_arith h ope x y = Inl e \<Longrightarrow> e = TypeError \<or> e = ZeroDivisionError \<or> e = OverflowError"
  by (cases x; cases y; cases ope)
     (auto simp: float_op_def split: option.splits if_splits)

lemma py_arith_error:
  "py_arith h ope a b = Inl e \<Longrightarrow> e = TypeError \<or> e = ZeroDivisionError \<or> e = OverflowError"
  by (cases "as_num a"; cases "as_num b")
     (auto simp: py_arith_def dest: num_arith_error)

lemma num_arith_zero:
  "num_cmp h y (I 0) = Eq \<Longrightarrow> \<exists>e. num_arith h TrueDiv x y = Inl e"
  by (cases x; cases y)
     (auto simp: float_op_def split: option.splits if_splits)

lemma falsy_is_zero:
  "\<not> truthy h b \<Longrightarrow> \<exists>y. as_num b = Some y \<and> num_cmp h y (I 0) = Eq"
  by (cases "as_num b") (auto simp: truthy_def split: pynum.splits)

lemma py_arith_zero:
  "\<not> truthy h b \<Longrightarrow> \<exists>e. py_arith h TrueDiv a b = Inl e"
  by (cases "as_num a") (auto simp: py_arith_def dest!: falsy_is_zero intro: num_arith_zero)

lemma arith_from_error:
  "arith_from h ope a xs = Inl e \<Longrightarrow> e = TypeError \<or> e = ZeroDivisionError \<or> e = OverflowError"
proof (induction xs arbitrary: a)
  case Nil
  then show ?case by simp
next
  case (Cons x xs)
  show ?case
  proof (cases "py_arith h ope a x")
    case (Inl e')
    with Cons.prems show ?thesis using py_arith_error [of h ope a x e'] by simp
  next
    case (Inr a')
    with Cons.prems show ?thesis using Cons.IH [of a'] by simp
  qed
qed

lemma arith_from_zero:
  "x \<in> set xs \<Longrightarrow> \<not> truthy h x \<Longrightarrow> \<exists>e. arith_from h TrueDiv a xs = Inl e"
proof (induction xs arbitrary: a)
  case Nil
  then show ?case by simp
next
  case (Cons y ys)
  show ?case
  proof (cases "py_arith h TrueDiv a y")
    case (Inl e')
    then show ?thesis by simp
  next
    case (Inr a')
    with py_arith_zero [of h y a] have "truthy h y" by auto
    with Cons.prems have "x \<in> set ys" by auto
    with Cons.IH [of a'] Cons.prems Inr show ?thesis by simp
  qed
qed

lemma arith_from_append:
  "arith_from h ope a (xs @ ys) =
     (case arith_from h ope a xs of
        Inl e \<Rightarrow> Inl e
      | Inr q \<Rightarrow> arith_from h ope q ys)"
  by (induction xs arbitrary: a) (auto split: sum.splits)

lemma num_arith_by_zero:
  "num_cmp h y (I 0) = Eq \<Longrightarrow>
   num_arith h TrueDiv x y =
     (case (x, y) of
        (I a, F v) \<Rightarrow>
          if float_of_int h a = None then Inl OverflowError else Inl ZeroDivisionError
      | (F u, I b) \<Rightarrow>
          if float_of_int h b = None then Inl OverflowError else Inl ZeroDivisionError
      | _ \<Rightarrow> Inl ZeroDivisionError)"
  by (cases x; cases y)
     (auto simp: float_op_def split: option.splits if_splits)

lemma py_arith_by_zero:
  "\<not> truthy h z \<Longrightarrow>
   py_arith h TrueDiv q z =
     (case (as_num q, as_num z) of
        (None, _) \<Rightarrow> Inl TypeError
      | (Some (I a), Some (F v)) \<Rightarrow>
          if float_of_int h a = None then Inl OverflowError else Inl ZeroDivisionError
      | (Some (F u), Some (I b)) \<Rightarrow>
          if float_of_int h b = None then Inl OverflowError else Inl ZeroDivisionError
      | _ \<Rightarrow> Inl ZeroDivisionError)"
proof -
  assume "\<not> truthy h z"
  then obtain y where y: "as_num z = Some y" "num_cmp h y (I 0) = Eq"
    using falsy_is_zero by blast
  show ?thesis
  proof (cases "as_num q")
    case None
    then show ?thesis by (simp add: py_arith_def)
  next
    case (Some x)
    with y num_arith_by_zero [OF y(2), of x] show ?thesis
      by (simp add: py_arith_def split: pynum.splits)
  qed
qed

text \<open>
  C9, as the source has it. When some argument of \<^verbatim>\<open>/\<close> after the first is zero (a
  number that is false), \<^verbatim>\<open>division\<close> returns no value and raises an exception of the
  host, which is no \<^verbatim>\<open>SchemeError\<close>. Which one is decided at the first zero \<open>z\<close>, after
  the arguments \<open>pre\<close>: when a division before it fails, that division's exception is
  raised; otherwise, with \<open>q\<close> the quotient reached, it is the \<^verbatim>\<open>TypeError\<close> when \<open>q\<close> is
  not a number, the \<^verbatim>\<open>OverflowError\<close> when one of \<open>q\<close> and \<open>z\<close> is a float and the other
  an int that does not convert to a float, and the \<^verbatim>\<open>ZeroDivisionError\<close> in every other
  case, as for an int divided by the int 0. The procedure is the value of \<^verbatim>\<open>/\<close> in a
  \<^verbatim>\<open>Builtin\<close> object, and a call of it is a call of \<open>division\<close>.
\<close>

theorem division_by_zero:
  "(0 < i \<and> i < length args \<and> \<not> truthy h (args ! i)
      \<longrightarrow> (\<exists>e. division h args = Inl e \<and> \<not> is_SchemeError e))
   \<and> (\<not> truthy h z \<and> arith_from h TrueDiv x pre = Inl e
      \<longrightarrow> division h (x # pre @ z # post) = Inl e \<and> \<not> is_SchemeError e)
   \<and> (\<not> truthy h z \<and> arith_from h TrueDiv x pre = Inr q
      \<longrightarrow> division h (x # pre @ z # post) =
            (case (as_num q, as_num z) of
               (None, _) \<Rightarrow> Inl TypeError
             | (Some (I a), Some (F v)) \<Rightarrow>
                 if float_of_int h a = None then Inl OverflowError
                 else Inl ZeroDivisionError
             | (Some (F u), Some (I b)) \<Rightarrow>
                 if float_of_int h b = None then Inl OverflowError
                 else Inl ZeroDivisionError
             | _ \<Rightarrow> Inl ZeroDivisionError))
   \<and> division h (VInt a # VInt 0 # rest) = Inl ZeroDivisionError
   \<and> map_of (Builtin_bindings b) (Sym ''/'') = Some (VMethod b M_division)
   \<and> call h (Suc n) (VMethod b M_division) args s = Some (division h args, s)"
proof (intro conjI impI)
  assume asm: "0 < i \<and> i < length args \<and> \<not> truthy h (args ! i)"
  then obtain x xs where args: "args = x # xs" by (cases args) auto
  with asm have "xs ! (i - 1) \<in> set xs" "\<not> truthy h (xs ! (i - 1))"
    by (auto simp: nth_Cons')
  then obtain e where e: "arith_from h TrueDiv x xs = Inl e"
    using arith_from_zero by blast
  with arith_from_error [OF e] args
  show "\<exists>e. division h args = Inl e \<and> \<not> is_SchemeError e"
    by (auto simp: division_def)
next
  assume "\<not> truthy h z \<and> arith_from h TrueDiv x pre = Inl e"
  then show "division h (x # pre @ z # post) = Inl e"
    by (simp add: division_def arith_from_append)
next
  assume "\<not> truthy h z \<and> arith_from h TrueDiv x pre = Inl e"
  with arith_from_error [of h TrueDiv x pre e] show "\<not> is_SchemeError e"
    by auto
next
  assume asm: "\<not> truthy h z \<and> arith_from h TrueDiv x pre = Inr q"
  then have z: "\<exists>e. py_arith h TrueDiv q z = Inl e"
    using py_arith_zero by blast
  from asm have nz: "\<not> truthy h z" by simp
  from asm have d: "division h (x # pre @ z # post) = py_arith h TrueDiv q z"
    using z by (auto simp: division_def arith_from_append)
  show "division h (x # pre @ z # post) =
            (case (as_num q, as_num z) of
               (None, _) \<Rightarrow> Inl TypeError
             | (Some (I a), Some (F v)) \<Rightarrow>
                 if float_of_int h a = None then Inl OverflowError
                 else Inl ZeroDivisionError
             | (Some (F u), Some (I b)) \<Rightarrow>
                 if float_of_int h b = None then Inl OverflowError
                 else Inl ZeroDivisionError
             | _ \<Rightarrow> Inl ZeroDivisionError)"
    unfolding d by (rule py_arith_by_zero [OF nz])
next
  show "division h (VInt a # VInt 0 # rest) = Inl ZeroDivisionError"
    by (simp add: division_def py_arith_def)
next
  show "map_of (Builtin_bindings b) (Sym ''/'') = Some (VMethod b M_division)"
    by (simp add: Builtin_bindings_def)
next
  show "call h (Suc n) (VMethod b M_division) args s = Some (division h args, s)"
    by (simp add: call.simps lift_def)
qed

theorem division_by_zero_witness:
  "(0::nat) < 2 \<and> 2 < length [VInt 6, VInt 3, VInt 0]
   \<and> \<not> truthy int_host ([VInt 6, VInt 3, VInt 0] ! 2)
   \<and> arith_from int_host TrueDiv (VInt 6) [VInt 3] = Inl OverflowError
   \<and> division int_host (VInt 6 # [VInt 3] @ VInt 0 # []) = Inl OverflowError
   \<and> \<not> truthy int_host (VBool False)
   \<and> arith_from int_host TrueDiv (VInt 6) [] = Inr (VInt 6)
   \<and> division int_host (VInt 6 # [] @ VBool False # [VNill]) = Inl ZeroDivisionError
   \<and> arith_from int_host TrueDiv VNill [] = Inr VNill
   \<and> division int_host (VNill # [] @ VBool False # []) = Inl TypeError"
  using division_by_zero [of 2 "[VInt 6, VInt 3, VInt 0]" int_host "VInt 0" "VInt 6" "[VInt 3]"
      OverflowError "[]" "VInt 6"]
    division_by_zero [of 2 "[VInt 6, VInt 3, VInt 0]" int_host "VBool False" "VInt 6" "[]"
      OverflowError "[VNill]" "VInt 6"]
    division_by_zero [of 2 "[VInt 6, VInt 3, VInt 0]" int_host "VBool False" "VNill" "[]"
      OverflowError "[]" "VNill"]
  by (simp add: truthy_def py_arith_def int_host_def)

text \<open>
  C9 as stated fails: \<^verbatim>\<open>(/ nil 0)\<close> has a zero after the first argument and raises
  \<^verbatim>\<open>TypeError\<close>, not the division-by-zero error.
\<close>

theorem division_of_nil_by_zero:
  "division int_host [VNill, VInt 0] = Inl TypeError"
  by (simp add: division_def py_arith_def)

subsection \<open>What an evaluation keeps of the frames\<close>

lemma frames_kept_refl [simp]: "frames_kept c s s"
  by (simp add: frames_kept_def)

lemma frames_kept_trans:
  "frames_kept c s s1 \<Longrightarrow> frames_kept c s1 s2 \<Longrightarrow> frames_kept c s s2"
  by (auto simp: frames_kept_def)

lemma frames_kept_weaken: "frames_kept None s s' \<Longrightarrow> frames_kept c s s'"
  by (auto simp: frames_kept_def)

lemma frames_kept_fresh:
  "frames_kept None s s0 \<Longrightarrow> frames_kept (Some c) s0 s1 \<Longrightarrow> length (frames s) \<le> c \<Longrightarrow>
   frames_kept None s s1"
  by (auto simp: frames_kept_def)

lemma frames_kept_same: "frames s' = frames s \<Longrightarrow> frames_kept c s s'"
  by (simp add: frames_kept_def keys_def)

lemma bind_res_kept:
  assumes "bind_res m k = Some (r, s')"
    and "\<And>r1 s1. m = Some (r1, s1) \<Longrightarrow> frames_kept c s s1"
    and "\<And>v s1. m = Some (Inr v, s1) \<Longrightarrow> k v s1 = Some (r, s') \<Longrightarrow> frames_kept c s1 s'"
  shows "frames_kept c s s'"
proof (cases m)
  case None
  with assms(1) show ?thesis by simp
next
  case (Some p)
  obtain r1 s1 where p: "p = (r1, s1)" by (cases p)
  show ?thesis
  proof (cases r1)
    case (Inl e)
    with Some p assms(1) have "s' = s1" by simp
    with assms(2) [of r1 s1] Some p show ?thesis by simp
  next
    case (Inr v)
    with Some p assms(1) have "k v s1 = Some (r, s')" by simp
    with assms(2) [of r1 s1] assms(3) [of v s1] Some p Inr show ?thesis
      by (auto intro: frames_kept_trans)
  qed
qed

lemma bind_pure_kept:
  assumes "bind_pure m s k = Some (r, s')"
    and "\<And>v. m = Some (Inr v) \<Longrightarrow> k v = Some (r, s') \<Longrightarrow> frames_kept c s s'"
  shows "frames_kept c s s'"
proof (cases m)
  case None
  with assms(1) show ?thesis by simp
next
  case (Some p)
  with assms show ?thesis by (cases p) auto
qed

lemma raise_kept: "raise e s = Some (r, s') \<Longrightarrow> frames_kept c s s'"
  by (auto simp: raise_def)

lemma ret_kept: "ret v s = Some (r, s') \<Longrightarrow> frames_kept c s s'"
  by (auto simp: ret_def)

lemma lift_kept: "lift x s = Some (r, s') \<Longrightarrow> frames_kept c s s'"
  by (auto simp: lift_def)

lemma new_Pair_kept: "new_Pair a d s = Some (r, s') \<Longrightarrow> frames_kept c s s'"
  by (auto simp: new_Pair_def ret_def intro: frames_kept_same)

lemma new_Function_kept: "new_Function f ps body s = Some (r, s') \<Longrightarrow> frames_kept c s s'"
  by (auto simp: new_Function_def ret_def intro: frames_kept_same)

lemma set_cdr_kept: "set_cdr x v s = Some (r, s') \<Longrightarrow> frames_kept c s s'"
  by (cases x) (auto simp: ret_def raise_def intro: frames_kept_same)

lemma cons_kept: "cons con s = Some (r, s') \<Longrightarrow> frames_kept c s s'"
  by (auto simp: cons_def split: if_splits intro: raise_kept new_Pair_kept)

lemma list_from_kept: "list_from xs obj s = Some (r, s') \<Longrightarrow> frames_kept c s s'"
proof (induction xs arbitrary: obj s)
  case Nil
  then show ?case by (simp add: ret_kept)
next
  case (Cons x xs)
  from Cons.prems show ?case
    by (auto elim!: bind_res_kept intro: new_Pair_kept Cons.IH)
qed

lemma list_m_kept: "list_m xs s = Some (r, s') \<Longrightarrow> frames_kept c s s'"
  by (auto simp: list_m_def intro: list_from_kept)

lemma copy_kept: "copy n listy s = Some (r, s') \<Longrightarrow> frames_kept c s s'"
proof (induction n arbitrary: listy s r s')
  case 0
  then show ?case by (simp add: raise_kept)
next
  case (Suc n)
  from Suc.prems show ?case
    by (auto split: sum.splits if_splits elim!: bind_res_kept
        intro: raise_kept ret_kept new_Pair_kept Suc.IH)
qed

lemma append_loop_kept:
  "append_loop n rest new_list end_of_list s = Some (r, s') \<Longrightarrow> frames_kept c s s'"
proof (induction rest arbitrary: new_list end_of_list s r s')
  case Nil
  then show ?case by (simp add: ret_kept)
next
  case (Cons x xs)
  from Cons.prems show ?case
    by (auto split: if_splits sum.splits elim!: bind_res_kept bind_pure_kept
        intro: raise_kept copy_kept set_cdr_kept Cons.IH)
qed

lemma append_m_kept: "append_m n listy s = Some (r, s') \<Longrightarrow> frames_kept c s s'"
  by (cases n)
     (auto split: if_splits sum.splits elim!: bind_res_kept bind_pure_kept
        intro: raise_kept ret_kept copy_kept append_loop_kept)

lemma keys_bind_frame:
  "keys (bind_frame f var v s) g =
     (if g = f \<and> f < length (frames s) then insert var (keys s g) else keys s g)"
  by (cases "f < length (frames s)")
     (auto simp: keys_def bind_frame_def nth_list_update dom_update not_less list_update_beyond)

lemma bind_frame_kept: "frames_kept (Some f) s (bind_frame f var v s)"
  by (simp add: frames_kept_def keys_bind_frame)

lemma bind_frame_bound_kept:
  "map_of (bindings (frames s ! f)) var \<noteq> None \<Longrightarrow> frames_kept c s (bind_frame f var v s)"
proof -
  assume "map_of (bindings (frames s ! f)) var \<noteq> None"
  then have "var \<in> keys s f" by (simp add: keys_def map_of_eq_None_iff)
  then show ?thesis by (simp add: frames_kept_def keys_bind_frame insert_absorb)
qed

lemma setitem_kept: "setitem s f var v = Inr s' \<Longrightarrow> frames_kept (Some f) s s'"
  by (auto simp: setitem_def split: if_splits intro: bind_frame_kept)

lemma set_exisits_kept: "set_exisits s f var v = Inr s' \<Longrightarrow> frames_kept c s s'"
proof (induction f rule: less_induct)
  case (less f)
  from less.prems show ?case
    using set_exisits.simps [of s f var v]
    by (auto split: if_splits option.splits intro: bind_frame_bound_kept less.IH)
qed

lemma delete_kept: "delete s f var = (r, s') \<Longrightarrow> frames_kept (Some f) s s'"
  by (cases "f < length (frames s)")
     (auto simp: delete_def frames_kept_def keys_def nth_list_update not_less list_update_beyond
        split: if_splits option.splits)

lemma new_Frame_kept:
  "new_Frame (Some p) s = (b, s0) \<Longrightarrow> b = length (frames s) \<and> frames_kept None s s0"
  by (auto simp: new_Frame_def frames_kept_def keys_def nth_append)

lemma bind_params_kept: "bind_params f zs s = Some (r, s') \<Longrightarrow> frames_kept (Some f) s s'"
proof (induction zs arbitrary: s)
  case Nil
  then show ?case by (simp add: ret_kept)
next
  case (Cons z zs)
  obtain v var where z: "z = (v, var)" by (cases z)
  with Cons.prems show ?case
    by (auto split: sum.splits intro: raise_kept
        dest!: setitem_kept Cons.IH intro: frames_kept_trans)
qed

text \<open>
  One step for each function of the evaluator, then all of them by induction on the room
  of the stack: an evaluation in the frame \<open>f\<close> gives bindings for new names to \<open>f\<close> and
  to frames it creates, and to no other frame.
\<close>

lemma evaluate_kept_step:
  assumes E: "\<And>t f s r s'. evaluate h n t f s = Some (r, s') \<Longrightarrow> frames_kept (Some f) s s'"
    and A: "\<And>ts f s r s'. and_loop h n ts f s = Some (r, s') \<Longrightarrow> frames_kept (Some f) s s'"
    and O: "\<And>ts f s r s'. or_loop h n ts f s = Some (r, s') \<Longrightarrow> frames_kept (Some f) s s'"
    and L: "\<And>ts f s r s'. let_loop h n ts f s = Some (r, s') \<Longrightarrow> frames_kept (Some f) s s'"
    and EL: "\<And>ts f s r s'. elements_loop h n ts f s = Some (r, s') \<Longrightarrow> frames_kept (Some f) s s'"
    and C: "\<And>fn args s r s' c. call h n fn args s = Some (r, s') \<Longrightarrow> frames_kept c s s'"
    and ev: "evaluate h (Suc n) t f s = Some (r, s')"
  shows "frames_kept (Some f) s s'"
proof (cases t)
  case (Num i)
  with ev show ?thesis by (simp add: evaluate.simps ret_kept)
next
  case (Flt x)
  with ev show ?thesis by (simp add: evaluate.simps ret_kept)
next
  case (Sym name)
  with ev show ?thesis by (simp add: evaluate.simps lift_kept)
next
  case (Lst ts)
  show ?thesis
  proof (cases "length ts = 0")
    case True
    with ev Lst show ?thesis by (simp add: evaluate.simps raise_kept)
  next
    case ne: False
    show ?thesis
    proof (cases "ts ! 0 = Sym ''define''")
      case True
      with ev Lst ne show ?thesis
        by (auto simp: evaluate.simps raise_def ret_def split: sum.splits ast.splits
            elim!: bind_res_kept dest: setitem_kept intro: raise_kept ret_kept E)
    next
      case nd: False
      show ?thesis
      proof (cases "ts ! 0 = Sym ''lambda''")
        case True
        with ev Lst ne show ?thesis
          by (auto simp: evaluate.simps raise_def ret_def split: sum.splits
              intro: raise_kept new_Function_kept)
      next
        case nl: False
        show ?thesis
        proof (cases "ts ! 0 = Sym ''if''")
          case True
          with ev Lst ne show ?thesis
            by (auto simp: evaluate.simps raise_def ret_def split: sum.splits if_splits
                elim!: bind_res_kept intro: raise_kept E)
        next
          case ni: False
          show ?thesis
          proof (cases "ts ! 0 = Sym ''and''")
            case True
            with ev Lst ne show ?thesis
              by (auto simp: evaluate.simps raise_def ret_def intro: A)
          next
            case na: False
            show ?thesis
            proof (cases "ts ! 0 = Sym ''or''")
              case True
              with ev Lst ne show ?thesis
                by (auto simp: evaluate.simps raise_def ret_def intro: O)
            next
              case no: False
              show ?thesis
              proof (cases "ts ! 0 = Sym ''del''")
                case True
                with ev Lst ne show ?thesis
                  by (auto simp: evaluate.simps raise_def ret_def split: sum.splits
                      elim!: bind_res_kept intro: raise_kept E delete_kept)
              next
                case ndl: False
                show ?thesis
                proof (cases "ts ! 0 = Sym ''let''")
                  case True
                  obtain b s0 where nf: "new_Frame (Some f) s = (b, s0)"
                    by (cases "new_Frame (Some f) s")
                  then have b: "b = length (frames s)" and k0: "frames_kept None s s0"
                    using new_Frame_kept by blast+
                  have "frames_kept (Some b) s0 s'"
                    using ev Lst ne True nf
                    by (auto simp: evaluate.simps raise_def ret_def split: sum.splits
                        elim!: bind_res_kept intro: raise_kept E L)
                  with k0 b have "frames_kept None s s'"
                    using frames_kept_fresh by blast
                  then show ?thesis by (rule frames_kept_weaken)
                next
                  case nlt: False
                  show ?thesis
                  proof (cases "ts ! 0 = Sym ''set!''")
                    case True
                    with ev Lst ne show ?thesis
                      by (auto simp: evaluate.simps raise_def ret_def split: sum.splits
                          elim!: bind_res_kept intro: raise_kept ret_kept E set_exisits_kept)
                  next
                    case False
                    with ev Lst ne nd nl ni na no ndl nlt show ?thesis
                      by (auto simp: evaluate.simps raise_def ret_def split: if_splits
                          elim!: bind_res_kept intro: raise_kept EL C)
                  qed
                qed
              qed
            qed
          qed
        qed
      qed
    qed
  qed
qed

lemma and_loop_kept_from:
  assumes E: "\<And>t f s r s'. evaluate h n t f s = Some (r, s') \<Longrightarrow> frames_kept (Some f) s s'"
  shows "and_loop h n ts f s = Some (r, s') \<Longrightarrow> frames_kept (Some f) s s'"
proof (induction ts arbitrary: s)
  case Nil
  then show ?case by (simp add: and_loop.simps ret_kept)
next
  case (Cons t ts)
  from Cons.prems show ?case
    by (auto simp: and_loop.simps ret_def split: if_splits
        elim!: bind_res_kept intro: E Cons.IH)
qed

lemma or_loop_kept_from:
  assumes E: "\<And>t f s r s'. evaluate h n t f s = Some (r, s') \<Longrightarrow> frames_kept (Some f) s s'"
  shows "or_loop h n ts f s = Some (r, s') \<Longrightarrow> frames_kept (Some f) s s'"
proof (induction ts arbitrary: s)
  case Nil
  then show ?case by (simp add: or_loop.simps ret_kept)
next
  case (Cons t ts)
  from Cons.prems show ?case
    by (auto simp: or_loop.simps ret_def split: if_splits
        elim!: bind_res_kept intro: E Cons.IH)
qed

lemma let_loop_kept_from:
  assumes E: "\<And>t f s r s'. evaluate h n t f s = Some (r, s') \<Longrightarrow> frames_kept (Some f) s s'"
  shows "let_loop h n ts f s = Some (r, s') \<Longrightarrow> frames_kept (Some f) s s'"
proof (induction ts arbitrary: s)
  case Nil
  then show ?case by (simp add: let_loop.simps ret_kept)
next
  case (Cons t ts)
  from Cons.prems show ?case
    by (auto simp: let_loop.simps raise_def ret_def split: if_splits sum.splits
        elim!: bind_res_kept intro: E dest!: setitem_kept Cons.IH intro: frames_kept_trans)
qed

lemma elements_loop_kept_from:
  assumes E: "\<And>t f s r s'. evaluate h n t f s = Some (r, s') \<Longrightarrow> frames_kept (Some f) s s'"
  shows "elements_loop h n ts f s = Some (r, s') \<Longrightarrow> frames_kept (Some f) s s'"
proof (induction ts arbitrary: s r s')
  case Nil
  then show ?case by (simp add: elements_loop.simps ret_kept)
next
  case (Cons t ts)
  from Cons.prems show ?case
    by (auto simp: elements_loop.simps ret_def split: if_splits
        elim!: bind_res_kept intro: E Cons.IH)
qed

lemma call_kept_0: "call h 0 fn arg s = Some (r, s') \<Longrightarrow> frames_kept c s s'"
  by (cases fn) (auto simp: call.simps raise_def lift_def)

lemma call_kept_step:
  assumes E: "\<And>t f s r s'. evaluate h n t f s = Some (r, s') \<Longrightarrow> frames_kept (Some f) s s'"
    and M: "\<And>listy s r s' c. map_func h (Suc n) listy s = Some (r, s') \<Longrightarrow> frames_kept c s s'"
    and F: "\<And>listy s r s' c. filter_m h (Suc n) listy s = Some (r, s') \<Longrightarrow> frames_kept c s s'"
    and R: "\<And>listy s r s' c. reduce h (Suc n) listy s = Some (r, s') \<Longrightarrow> frames_kept c s s'"
    and ev: "call h (Suc n) fn arg s = Some (r, s')"
  shows "frames_kept c s s'"
proof (cases fn)
  case (VFunction a)
  obtain b s0 where nf: "new_Frame (Some (frame (closures s ! a))) s = (b, s0)"
    by (cases "new_Frame (Some (frame (closures s ! a))) s")
  then have b: "b = length (frames s)" and k0: "frames_kept None s s0"
    using new_Frame_kept by blast+
  have "frames_kept (Some b) s0 s'"
    using ev VFunction nf
    by (auto simp: call.simps raise_def ret_def split: sum.splits if_splits
        elim!: bind_res_kept intro: bind_params_kept E)
  with k0 b have "frames_kept None s s'"
    using frames_kept_fresh by blast
  then show ?thesis by (rule frames_kept_weaken)
next
  case (VMethod b m)
  with ev show ?thesis
    by (cases m)
       (auto simp: call.simps raise_def ret_def lift_def
          simp del: append_m.simps list_length.simps list_indexing.simps islist.simps
          elim!: bind_pure_kept
          intro: cons_kept list_m_kept append_m_kept M F R)
qed (use ev in \<open>auto simp: call.simps raise_def lift_def\<close>)

lemma map_func_kept_step:
  assumes C: "\<And>fn args s r s' c. call h n fn args s = Some (r, s') \<Longrightarrow> frames_kept c s s'"
    and M: "\<And>listy s r s' c. map_func h n listy s = Some (r, s') \<Longrightarrow> frames_kept c s s'"
    and ev: "map_func h (Suc n) listy s = Some (r, s')"
  shows "frames_kept c s s'"
  using ev
  by (auto simp: map_func.simps raise_def ret_def split: if_splits sum.splits
      elim!: bind_res_kept intro: C M new_Pair_kept)

lemma filter_m_kept_step:
  assumes C: "\<And>fn args s r s' c. call h n fn args s = Some (r, s') \<Longrightarrow> frames_kept c s s'"
    and F: "\<And>listy s r s' c. filter_m h n listy s = Some (r, s') \<Longrightarrow> frames_kept c s s'"
    and ev: "filter_m h (Suc n) listy s = Some (r, s')"
  shows "frames_kept c s s'"
  using ev
  by (auto simp: filter_m.simps raise_def ret_def split: if_splits sum.splits
      elim!: bind_res_kept intro: C F new_Pair_kept)

lemma reduce_kept_step:
  assumes C: "\<And>fn args s r s' c. call h n fn args s = Some (r, s') \<Longrightarrow> frames_kept c s s'"
    and R: "\<And>listy s r s' c. reduce h n listy s = Some (r, s') \<Longrightarrow> frames_kept c s s'"
    and ev: "reduce h (Suc n) listy s = Some (r, s')"
  shows "frames_kept c s s'"
  using ev
  by (auto simp: reduce.simps raise_def ret_def split: if_splits sum.splits
      elim!: bind_res_kept intro: C R)

lemma kept_all:
  "(\<forall>t f s r s'. evaluate h n t f s = Some (r, s') \<longrightarrow> frames_kept (Some f) s s')
   \<and> (\<forall>fn args s r s' c. call h n fn args s = Some (r, s') \<longrightarrow> frames_kept c s s')
   \<and> (\<forall>listy s r s' c. map_func h n listy s = Some (r, s') \<longrightarrow> frames_kept c s s')
   \<and> (\<forall>listy s r s' c. filter_m h n listy s = Some (r, s') \<longrightarrow> frames_kept c s s')
   \<and> (\<forall>listy s r s' c. reduce h n listy s = Some (r, s') \<longrightarrow> frames_kept c s s')"
proof (induction n)
  case 0
  show ?case
    by (auto simp: evaluate.simps map_func.simps filter_m.simps reduce.simps
        intro: raise_kept call_kept_0)
next
  case (Suc n)
  note E = Suc [THEN conjunct1, rule_format]
  note C = Suc [THEN conjunct2, THEN conjunct1, rule_format]
  note M = Suc [THEN conjunct2, THEN conjunct2, THEN conjunct1, rule_format]
  note F = Suc [THEN conjunct2, THEN conjunct2, THEN conjunct2, THEN conjunct1, rule_format]
  note R = Suc [THEN conjunct2, THEN conjunct2, THEN conjunct2, THEN conjunct2, rule_format]
  have A: "\<And>ts f s r s'. and_loop h n ts f s = Some (r, s') \<Longrightarrow> frames_kept (Some f) s s'"
    by (rule and_loop_kept_from [where h = h and n = n]) (erule E)
  have O: "\<And>ts f s r s'. or_loop h n ts f s = Some (r, s') \<Longrightarrow> frames_kept (Some f) s s'"
    by (rule or_loop_kept_from [where h = h and n = n]) (erule E)
  have L: "\<And>ts f s r s'. let_loop h n ts f s = Some (r, s') \<Longrightarrow> frames_kept (Some f) s s'"
    by (rule let_loop_kept_from [where h = h and n = n]) (erule E)
  have EL: "\<And>ts f s r s'. elements_loop h n ts f s = Some (r, s') \<Longrightarrow> frames_kept (Some f) s s'"
    by (rule elements_loop_kept_from [where h = h and n = n]) (erule E)
  have M': "\<And>listy s r s' c. map_func h (Suc n) listy s = Some (r, s') \<Longrightarrow> frames_kept c s s'"
    by (rule map_func_kept_step [where h = h and n = n]) (erule C M | assumption)+
  have F': "\<And>listy s r s' c. filter_m h (Suc n) listy s = Some (r, s') \<Longrightarrow> frames_kept c s s'"
    by (rule filter_m_kept_step [where h = h and n = n]) (erule C F | assumption)+
  have R': "\<And>listy s r s' c. reduce h (Suc n) listy s = Some (r, s') \<Longrightarrow> frames_kept c s s'"
    by (rule reduce_kept_step [where h = h and n = n]) (erule C R | assumption)+
  show ?case
  proof (intro conjI allI impI)
    fix t f s r s'
    assume "evaluate h (Suc n) t f s = Some (r, s')"
    then show "frames_kept (Some f) s s'"
      by - (rule evaluate_kept_step [where h = h and n = n], (erule E A O L EL C | assumption)+)
  next
    fix fn args s r s' c
    assume "call h (Suc n) fn args s = Some (r, s')"
    then show "frames_kept c s s'"
      by - (rule call_kept_step [where h = h and n = n], (erule E M' F' R' | assumption)+)
  next
    fix listy s r s' c
    assume "map_func h (Suc n) listy s = Some (r, s')"
    then show "frames_kept c s s'" by (rule M')
  next
    fix listy s r s' c
    assume "filter_m h (Suc n) listy s = Some (r, s')"
    then show "frames_kept c s s'" by (rule F')
  next
    fix listy s r s' c
    assume "reduce h (Suc n) listy s = Some (r, s')"
    then show "frames_kept c s s'" by (rule R')
  qed
qed

lemma evaluate_kept: "evaluate h n t f s = Some (r, s') \<Longrightarrow> frames_kept (Some f) s s'"
  by (rule kept_all [THEN conjunct1, rule_format])

lemma let_loop_kept: "let_loop h n ts f s = Some (r, s') \<Longrightarrow> frames_kept (Some f) s s'"
  by (rule let_loop_kept_from [where h = h and n = n]) (erule evaluate_kept)

lemma wf_upto_kept: "frames_kept c s s' \<Longrightarrow> wf_upto s f \<Longrightarrow> wf_upto s' f"
  by (auto simp: frames_kept_def wf_upto_def)

subsection \<open>The form \<^verbatim>\<open>del\<close>\<close>

text \<open>
  C7. \<^verbatim>\<open>(del name)\<close> first looks \<^verbatim>\<open>name\<close> up along the chain of frames and raises
  the exception of the lookup; when no frame of the chain binds \<^verbatim>\<open>name\<close> this is a
  \<^verbatim>\<open>SchemeNameError\<close>. When the current frame binds \<^verbatim>\<open>name\<close>, the binding is removed
  from the current frame, no other frame changes, and the value is returned. When only
  an ancestor binds \<^verbatim>\<open>name\<close>, a \<^verbatim>\<open>SchemeNameError\<close> is raised and the store is
  unchanged.
\<close>

theorem del_form:
  "evaluate h (Suc (Suc n)) (Lst [Sym ''del'', Sym name]) f s =
     (case getitem s f (Sym name) of
        Inl e \<Rightarrow> Some (Inl e, s)
      | Inr v0 \<Rightarrow> Some (delete s f (Sym name)))
   \<and> (wf_frames s \<and> f < length (frames s) \<and> nearest s f (Sym name) = None
        \<longrightarrow> evaluate h (Suc (Suc n)) (Lst [Sym ''del'', Sym name]) f s
              = Some (Inl SchemeNameError, s))
   \<and> (map_of (bindings (frames s ! f)) (Sym name) = Some v
        \<longrightarrow> evaluate h (Suc (Suc n)) (Lst [Sym ''del'', Sym name]) f s
              = Some (Inr v, s\<lparr>frames := (frames s)[f := (frames s ! f)
                  \<lparr>bindings := AList.delete (Sym name) (bindings (frames s ! f))\<rparr>]\<rparr>))
   \<and> (wf_frames s \<and> f < length (frames s) \<and> nearest s f (Sym name) = Some g \<and> g \<noteq> f
        \<longrightarrow> evaluate h (Suc (Suc n)) (Lst [Sym ''del'', Sym name]) f s
              = Some (Inl SchemeNameError, s))"
proof (intro conjI impI)
  show eq: "evaluate h (Suc (Suc n)) (Lst [Sym ''del'', Sym name]) f s =
     (case getitem s f (Sym name) of
        Inl e \<Rightarrow> Some (Inl e, s)
      | Inr v0 \<Rightarrow> Some (delete s f (Sym name)))"
    by (cases "getitem s f (Sym name)") (simp_all add: evaluate_del evaluate_Sym)
  {
    assume "wf_frames s \<and> f < length (frames s) \<and> nearest s f (Sym name) = None"
    then show "evaluate h (Suc (Suc n)) (Lst [Sym ''del'', Sym name]) f s
              = Some (Inl SchemeNameError, s)"
      by (simp add: eq getitem_nearest)
  }
  {
    assume "map_of (bindings (frames s ! f)) (Sym name) = Some v"
    then show "evaluate h (Suc (Suc n)) (Lst [Sym ''del'', Sym name]) f s
              = Some (Inr v, s\<lparr>frames := (frames s)[f := (frames s ! f)
                  \<lparr>bindings := AList.delete (Sym name) (bindings (frames s ! f))\<rparr>]\<rparr>)"
      by (simp add: eq getitem_here delete_def)
  }
  {
    assume a: "wf_frames s \<and> f < length (frames s) \<and> nearest s f (Sym name) = Some g \<and> g \<noteq> f"
    then have "map_of (bindings (frames s ! f)) (Sym name) = None"
      using nearest_not_here by blast
    with a show "evaluate h (Suc (Suc n)) (Lst [Sym ''del'', Sym name]) f s
              = Some (Inl SchemeNameError, s)"
      by (simp add: eq getitem_nearest delete_def)
  }
qed

theorem del_form_witness:
  "map_of (bindings (frames store_x ! 1)) (Sym ''x'') = Some (VInt 5)
   \<and> evaluate int_host (Suc (Suc 0)) (Lst [Sym ''del'', Sym ''x'']) 1 store_x
       = Some (Inr (VInt 5), fresh)
   \<and> wf_frames store_x_child \<and> nearest store_x_child 2 (Sym ''x'') = Some 1
   \<and> evaluate int_host (Suc (Suc 0)) (Lst [Sym ''del'', Sym ''x'']) 2 store_x_child
       = Some (Inl SchemeNameError, store_x_child)
   \<and> nearest store_x_child 2 (Sym ''y'') = None
   \<and> evaluate int_host (Suc (Suc 0)) (Lst [Sym ''del'', Sym ''y'']) 2 store_x_child
       = Some (Inl SchemeNameError, store_x_child)"
proof -
  have b: "map_of (bindings (frames store_x ! 1)) (Sym ''x'') = Some (VInt 5)"
    by code_simp
  have st: "store_x\<lparr>frames := (frames store_x)[1 := (frames store_x ! 1)
      \<lparr>bindings := AList.delete (Sym ''x'') (bindings (frames store_x ! 1))\<rparr>]\<rparr> = fresh"
    by code_simp
  have w: "wf_frames store_x_child" "2 < length (frames store_x_child)"
    "nearest store_x_child 2 (Sym ''x'') = Some 1"
    "nearest store_x_child 2 (Sym ''y'') = None"
    "(1::nat) \<noteq> 2"
    by code_simp+
  have "evaluate int_host (Suc (Suc 0)) (Lst [Sym ''del'', Sym ''x'']) 1 store_x
      = Some (Inr (VInt 5), store_x\<lparr>frames := (frames store_x)[1 := (frames store_x ! 1)
      \<lparr>bindings := AList.delete (Sym ''x'') (bindings (frames store_x ! 1))\<rparr>]\<rparr>)"
    using del_form [of int_host 0 "''x''" 1 store_x "VInt 5" 1] b by blast
  then have 1: "evaluate int_host (Suc (Suc 0)) (Lst [Sym ''del'', Sym ''x'']) 1 store_x
      = Some (Inr (VInt 5), fresh)"
    by (simp only: st)
  have 2: "evaluate int_host (Suc (Suc 0)) (Lst [Sym ''del'', Sym ''x'']) 2 store_x_child
       = Some (Inl SchemeNameError, store_x_child)"
    using del_form [of int_host 0 "''x''" 2 store_x_child "VInt 5" 1] w by blast
  have 3: "evaluate int_host (Suc (Suc 0)) (Lst [Sym ''del'', Sym ''y'']) 2 store_x_child
       = Some (Inl SchemeNameError, store_x_child)"
    using del_form [of int_host 0 "''y''" 2 store_x_child "VInt 5" 1] w by blast
  from b w 1 2 3 show ?thesis by blast
qed

subsection \<open>The form \<^verbatim>\<open>set!\<close>\<close>

text \<open>
  C3, as the source has it. \<^verbatim>\<open>(set! name expr)\<close> first looks \<^verbatim>\<open>name\<close> up. When the
  lookup raises, which is a \<^verbatim>\<open>SchemeNameError\<close> when no frame of the chain binds
  \<^verbatim>\<open>name\<close>, the form raises the same exception, whatever \<^verbatim>\<open>expr\<close> is, and the store is
  unchanged. Otherwise \<^verbatim>\<open>expr\<close> is evaluated in the current frame; when \<^verbatim>\<open>name\<close> is
  still bound in the chain after that, the binding in the nearest frame that has one is
  overwritten, the value is returned, and a lookup from the current frame and from that
  frame gives the new value.
\<close>

theorem set_form:
  "(getitem s f (Sym name) = Inl e
      \<longrightarrow> evaluate h (Suc n) (Lst [Sym ''set!'', Sym name, expr]) f s = Some (Inl e, s))
   \<and> (wf_frames s \<and> f < length (frames s) \<and> nearest s f (Sym name) = None
      \<longrightarrow> evaluate h (Suc n) (Lst [Sym ''set!'', Sym name, expr]) f s
            = Some (Inl SchemeNameError, s))
   \<and> (wf_frames s \<and> f < length (frames s) \<and> getitem s f (Sym name) = Inr old
        \<and> evaluate h n expr f s = Some (Inr v, s1) \<and> nearest s1 f (Sym name) = Some g
      \<longrightarrow> evaluate h (Suc n) (Lst [Sym ''set!'', Sym name, expr]) f s
            = Some (Inr v, bind_frame g (Sym name) v s1)
          \<and> getitem (bind_frame g (Sym name) v s1) f (Sym name) = Inr v
          \<and> getitem (bind_frame g (Sym name) v s1) g (Sym name) = Inr v)"
proof (intro conjI impI)
  assume "getitem s f (Sym name) = Inl e"
  then show "evaluate h (Suc n) (Lst [Sym ''set!'', Sym name, expr]) f s = Some (Inl e, s)"
    by (simp add: evaluate_set)
next
  assume "wf_frames s \<and> f < length (frames s) \<and> nearest s f (Sym name) = None"
  then show "evaluate h (Suc n) (Lst [Sym ''set!'', Sym name, expr]) f s
            = Some (Inl SchemeNameError, s)"
    by (simp add: evaluate_set getitem_nearest)
next
  assume a: "wf_frames s \<and> f < length (frames s) \<and> getitem s f (Sym name) = Inr old
        \<and> evaluate h n expr f s = Some (Inr v, s1) \<and> nearest s1 f (Sym name) = Some g"
  then have "frames_kept (Some f) s s1" using evaluate_kept by blast
  with a have w: "wf_upto s1 f" using wf_upto_kept wf_frames_upto by blast
  with a show "evaluate h (Suc n) (Lst [Sym ''set!'', Sym name, expr]) f s
            = Some (Inr v, bind_frame g (Sym name) v s1)"
    by (simp add: evaluate_set set_exisits_nearest_upto)
  from a w show "getitem (bind_frame g (Sym name) v s1) f (Sym name) = Inr v"
    using getitem_after_bind_upto(1) [of s1 f "Sym name" g v] by simp
  from a w show "getitem (bind_frame g (Sym name) v s1) g (Sym name) = Inr v"
    using getitem_after_bind_upto(2) [of s1 f "Sym name" g v] by simp
qed

theorem set_form_witness:
  "getitem store_x_child 2 (Sym ''x'') = Inr (VInt 5)
   \<and> nearest store_x_child 2 (Sym ''x'') = Some 1
   \<and> evaluate int_host (Suc (Suc 0)) (Lst [Sym ''set!'', Sym ''x'', Num 7]) 2 store_x_child
       = Some (Inr (VInt 7), bind_frame 1 (Sym ''x'') (VInt 7) store_x_child)
   \<and> getitem (bind_frame 1 (Sym ''x'') (VInt 7) store_x_child) 2 (Sym ''x'') = Inr (VInt 7)
   \<and> getitem (bind_frame 1 (Sym ''x'') (VInt 7) store_x_child) 1 (Sym ''x'') = Inr (VInt 7)
   \<and> getitem store_x_child 2 (Sym ''y'') = Inl SchemeNameError
   \<and> evaluate int_host (Suc (Suc 0)) (Lst [Sym ''set!'', Sym ''y'', Num 7]) 2 store_x_child
       = Some (Inl SchemeNameError, store_x_child)"
proof -
  have w: "getitem store_x_child 2 (Sym ''x'') = Inr (VInt 5)"
    "evaluate int_host (Suc 0) (Num 7) 2 store_x_child = Some (Inr (VInt 7), store_x_child)"
    "wf_frames store_x_child" "2 < length (frames store_x_child)"
    "nearest store_x_child 2 (Sym ''x'') = Some 1"
    "getitem store_x_child 2 (Sym ''y'') = Inl SchemeNameError"
    by code_simp+
  have 1: "evaluate int_host (Suc (Suc 0)) (Lst [Sym ''set!'', Sym ''x'', Num 7]) 2 store_x_child
       = Some (Inr (VInt 7), bind_frame 1 (Sym ''x'') (VInt 7) store_x_child)
   \<and> getitem (bind_frame 1 (Sym ''x'') (VInt 7) store_x_child) 2 (Sym ''x'') = Inr (VInt 7)
   \<and> getitem (bind_frame 1 (Sym ''x'') (VInt 7) store_x_child) 1 (Sym ''x'') = Inr (VInt 7)"
    using set_form [of store_x_child 2 "''x''" SchemeNameError int_host "Suc 0" "Num 7"
      "VInt 5" "VInt 7" store_x_child 1] w by blast
  have 2: "evaluate int_host (Suc (Suc 0)) (Lst [Sym ''set!'', Sym ''y'', Num 7]) 2 store_x_child
       = Some (Inl SchemeNameError, store_x_child)"
    using set_form [of store_x_child 2 "''y''" SchemeNameError int_host "Suc 0" "Num 7"
      "VInt 5" "VInt 7" store_x_child 1] w by blast
  from w 1 2 show ?thesis by blast
qed

text \<open>
  C3 as stated fails: in \<^verbatim>\<open>(set! x (del x))\<close> the name \<^verbatim>\<open>x\<close> is bound, \<^verbatim>\<open>(del x)\<close>
  evaluates to 5 and removes the only binding, and \<^verbatim>\<open>set_exisits\<close> then reaches the
  \<^verbatim>\<open>Builtin\<close> object, which has no \<^verbatim>\<open>parent_frame\<close>: the form raises the host's
  \<^verbatim>\<open>AttributeError\<close> and returns no value.
\<close>

theorem set_of_deleted_name:
  "getitem store_x 1 (Sym ''x'') = Inr (VInt 5)
   \<and> evaluate int_host 2 (Lst [Sym ''del'', Sym ''x'']) 1 store_x = Some (Inr (VInt 5), fresh)
   \<and> evaluate int_host 3 (Lst [Sym ''set!'', Sym ''x'', Lst [Sym ''del'', Sym ''x'']]) 1 store_x
       = Some (Inl AttributeError, fresh)"
  by code_simp

subsection \<open>The symbols \<^verbatim>\<open>#t\<close> and \<^verbatim>\<open>#f\<close>\<close>

lemma parse_atom:
  "tok \<noteq> ''('' \<Longrightarrow> tok \<noteq> '')'' \<Longrightarrow>
   parse h (Suc n) [tok] = Some (Inr (number_or_symbol h tok))"
  by (simp add: parse_def)

lemma getitem_new_Frame:
  "map_of (Builtin_bindings (length (frames s))) (Sym name) = Some v \<Longrightarrow>
   getitem (snd (new_Frame None s)) (fst (new_Frame None s)) (Sym name) = Inr v"
  by (simp add: new_Frame_def new_Builtin_def Let_def
      getitem.simps [of _ "Suc (length (frames s))"] getitem.simps [of _ "length (frames s)"]
      nth_append)

text \<open>
  C8. A syntax tree has no boolean literal. The parser turns a token that the host reads
  neither as an int nor as a float into a symbol, and so the tokens \<^verbatim>\<open>#t\<close> and \<^verbatim>\<open>#f\<close>.
  Evaluating the symbol is a lookup along the chain of frames. \<^verbatim>\<open>Builtin.__init__\<close>
  binds \<^verbatim>\<open>#t\<close> to true and \<^verbatim>\<open>#f\<close> to false: the lookup gives these values in the
  frame that \<^verbatim>\<open>Frame()\<close> creates, and in every frame for which the nearest binding of
  the symbol is that of a \<^verbatim>\<open>Builtin\<close> object.
\<close>

theorem booleans_are_bindings:
  "(int_of_str h ''#t'' = None \<and> float_of_str h ''#t'' = None
      \<longrightarrow> parse h (Suc n) [''#t''] = Some (Inr (Sym ''#t'')))
   \<and> (int_of_str h ''#f'' = None \<and> float_of_str h ''#f'' = None
      \<longrightarrow> parse h (Suc n) [''#f''] = Some (Inr (Sym ''#f'')))
   \<and> evaluate h (Suc n) (Sym ''#t'') f s = Some (getitem s f (Sym ''#t''), s)
   \<and> evaluate h (Suc n) (Sym ''#f'') f s = Some (getitem s f (Sym ''#f''), s)
   \<and> map_of (Builtin_bindings b) (Sym ''#t'') = Some (VBool True)
   \<and> map_of (Builtin_bindings b) (Sym ''#f'') = Some (VBool False)
   \<and> evaluate h (Suc n) (Sym ''#t'') (fst (new_Frame None s)) (snd (new_Frame None s))
       = Some (Inr (VBool True), snd (new_Frame None s))
   \<and> evaluate h (Suc n) (Sym ''#f'') (fst (new_Frame None s)) (snd (new_Frame None s))
       = Some (Inr (VBool False), snd (new_Frame None s))
   \<and> (wf_frames s \<and> f < length (frames s) \<and> nearest s f (Sym ''#t'') = Some g
        \<and> bindings (frames s ! g) = Builtin_bindings b
      \<longrightarrow> evaluate h (Suc n) (Sym ''#t'') f s = Some (Inr (VBool True), s))
   \<and> (wf_frames s \<and> f < length (frames s) \<and> nearest s f (Sym ''#f'') = Some g
        \<and> bindings (frames s ! g) = Builtin_bindings b
      \<longrightarrow> evaluate h (Suc n) (Sym ''#f'') f s = Some (Inr (VBool False), s))"
proof -
  have t: "map_of (Builtin_bindings b) (Sym ''#t'') = Some (VBool True)" for b
    by (simp add: Builtin_bindings_def)
  have f: "map_of (Builtin_bindings b) (Sym ''#f'') = Some (VBool False)" for b
    by (simp add: Builtin_bindings_def)
  show ?thesis
    by (simp add: parse_atom number_or_symbol_def evaluate_Sym getitem_new_Frame t f
        getitem_nearest)
qed

theorem booleans_are_bindings_witness:
  "int_of_str int_host ''#t'' = None \<and> float_of_str int_host ''#t'' = None
   \<and> parse int_host (Suc 0) [''#t''] = Some (Inr (Sym ''#t''))
   \<and> int_of_str int_host ''#f'' = None \<and> float_of_str int_host ''#f'' = None
   \<and> parse int_host (Suc 0) [''#f''] = Some (Inr (Sym ''#f''))
   \<and> wf_frames store_x_child \<and> nearest store_x_child 2 (Sym ''#t'') = Some 0
   \<and> bindings (frames store_x_child ! 0) = Builtin_bindings 0
   \<and> evaluate int_host (Suc 0) (Sym ''#t'') 2 store_x_child
       = Some (Inr (VBool True), store_x_child)
   \<and> nearest store_x_child 2 (Sym ''#f'') = Some 0
   \<and> evaluate int_host (Suc 0) (Sym ''#f'') 2 store_x_child
       = Some (Inr (VBool False), store_x_child)"
proof -
  have w: "int_of_str int_host ''#t'' = None" "float_of_str int_host ''#t'' = None"
    "int_of_str int_host ''#f'' = None" "float_of_str int_host ''#f'' = None"
    "wf_frames store_x_child" "2 < length (frames store_x_child)"
    "nearest store_x_child 2 (Sym ''#t'') = Some 0"
    "nearest store_x_child 2 (Sym ''#f'') = Some 0"
    "bindings (frames store_x_child ! 0) = Builtin_bindings 0"
    by code_simp+
  show ?thesis
    using booleans_are_bindings [of int_host 0 2 store_x_child 0 0] w by blast
qed

subsection \<open>\<^verbatim>\<open>append\<close> after an empty first list\<close>

text \<open>
  C2. \<^verbatim>\<open>(append nil (list 1) (list 2))\<close> raises a \<^verbatim>\<open>SchemeEvaluationError\<close>: after the
  empty first list \<^verbatim>\<open>new_list\<close> becomes the copy of the second argument while
  \<^verbatim>\<open>end_of_list\<close> stays \<^verbatim>\<open>Nill\<close>, and the walk to the end of the list calls \<^verbatim>\<open>cdr\<close> on
  \<^verbatim>\<open>Nill\<close>. On the same path the second argument is copied without the test
  \<^verbatim>\<open>islist\<close>, and \<^verbatim>\<open>(append nil 5)\<close> raises the host's \<^verbatim>\<open>AttributeError\<close>. The copy is
  a copy of the chain of pairs only: an element that is a list is the same object in the
  argument and in the result, which \<^verbatim>\<open>equal?\<close> shows, as it compares pairs by identity.
\<close>

theorem append_after_nil:
  "map_option fst (evaluate int_host 20
      (Lst [Sym ''append'', Sym ''nil'', Lst [Sym ''list'', Num 1], Lst [Sym ''list'', Num 2]])
      1 fresh)
     = Some (Inl SchemeEvaluationError)
   \<and> map_option fst (evaluate int_host 20 (Lst [Sym ''append'', Sym ''nil'', Num 5]) 1 fresh)
     = Some (Inl AttributeError)
   \<and> map_option fst (evaluate int_host 20
      (Lst [Sym ''begin'',
            Lst [Sym ''define'', Sym ''a'', Lst [Sym ''list'', Lst [Sym ''list'', Num 1]]],
            Lst [Sym ''define'', Sym ''b'', Lst [Sym ''append'', Sym ''a'']],
            Lst [Sym ''equal?'', Lst [Sym ''car'', Sym ''a''], Lst [Sym ''car'', Sym ''b'']]])
      1 fresh)
     = Some (Inr (VBool True))"
  by code_simp

subsection \<open>\<^verbatim>\<open>list-ref\<close> on a proper list\<close>

lemma cdr_Pair [simp]: "cdr s [VPair a] = Inr (snd (pairs s ! a))"
  by (simp add: cdr_def)

lemma car_Pair [simp]: "car s [VPair a] = Inr (fst (pairs s ! a))"
  by (simp add: car_def)

lemma cdr_Nill [simp]: "cdr s [VNill] = Inl SchemeEvaluationError"
  by (simp add: cdr_def)








lemma py_ne_int [simp]: "py_ne h (VInt i) (VInt j) \<longleftrightarrow> i \<noteq> j"
  by (simp add: py_ne_def py_eq_def)

lemma py_sub_int [simp]: "py_arith h Sub (VInt i) (VInt j) = Inr (VInt (i - j))"
  by (simp add: py_arith_def)

lemma py_lt_int [simp]: "py_lt h (VInt i) (VInt j) = Inr (i < j)"
  by (simp add: py_lt_def py_cmp_def)













subsection \<open>Calling a closure\<close>






subsection \<open>The form \<^verbatim>\<open>let\<close>\<close>

lemma evaluate_let:
  "evaluate h (Suc n) (Lst [Sym ''let'', Lst bs, body]) f s =
     bind_res (let_loop h n bs (length (frames s))
         (s\<lparr>frames := frames s @ [\<lparr>bindings = [], parent_frame = Some f\<rparr>]\<rparr>))
       (\<lambda>u s1. evaluate h n body (length (frames s)) s1)"
  by (simp add: evaluate.simps new_Frame_def)

lemma let_loop_Nil: "let_loop h n [] c s = Some (Inr (), s)"
  by (simp add: let_loop.simps ret_def)

lemma let_loop_Cons:
  "let_loop h n (Lst [Sym name, expr] # rest) c s =
     bind_res (evaluate h n expr c s) (\<lambda>v s1.
       let_loop h n rest c (bind_frame c (Sym name) v s1))"
  by (simp add: let_loop.simps ast_index_def setitem_def)

lemma let_kept:
  assumes "evaluate h (Suc n) (Lst [Sym ''let'', Lst bs, body]) f s = Some (r, s')"
  shows "frames_kept (Some (length (frames s)))
           (s\<lparr>frames := frames s @ [\<lparr>bindings = [], parent_frame = Some f\<rparr>]\<rparr>) s'"
  using assms unfolding evaluate_let
  by (auto elim!: bind_res_kept intro: let_loop_kept evaluate_kept)

text \<open>
  C5. \<^verbatim>\<open>(let ((n1 v1) (n2 v2) ...) body)\<close> adds one frame to the store, a child of the
  current frame, before anything is evaluated. Each \<^verbatim>\<open>vi\<close> is evaluated in that child
  frame, in the store the bindings before it left, and \<^verbatim>\<open>ni\<close> is bound there before the
  next binding is evaluated; then the result is that of \<^verbatim>\<open>body\<close> evaluated in the child
  frame. When the form returns or raises, the child frame is still the child of the
  current frame, and every frame the store had before, the current frame among them,
  has the same parent and bindings for the same names as before. In
  \<^verbatim>\<open>(let ((a 1) (b a)) b)\<close> the second binding sees the first: the result is 1.
\<close>

theorem let_form:
  "evaluate h (Suc n) (Lst [Sym ''let'', Lst bs, body]) f s =
     bind_res (let_loop h n bs (length (frames s))
         (s\<lparr>frames := frames s @ [\<lparr>bindings = [], parent_frame = Some f\<rparr>]\<rparr>))
       (\<lambda>u s1. evaluate h n body (length (frames s)) s1)
   \<and> let_loop h n [] c s = Some (Inr (), s)
   \<and> let_loop h n (Lst [Sym name, expr] # rest) c s =
       bind_res (evaluate h n expr c s) (\<lambda>v s1.
         let_loop h n rest c (bind_frame c (Sym name) v s1))
   \<and> (evaluate h (Suc n) (Lst [Sym ''let'', Lst bs, body]) f s = Some (r, s') \<longrightarrow>
        length (frames s) < length (frames s')
        \<and> parent_frame (frames s' ! length (frames s)) = Some f
        \<and> (\<forall>g < length (frames s).
              keys s' g = keys s g
              \<and> parent_frame (frames s' ! g) = parent_frame (frames s ! g)))
   \<and> map_option fst (evaluate h 10 let_ab 1 fresh) = Some (Inr (VInt 1))"
proof (intro conjI impI)
  assume "evaluate h (Suc n) (Lst [Sym ''let'', Lst bs, body]) f s = Some (r, s')"
  from let_kept [OF this]
  have k: "frames_kept (Some (length (frames s)))
      (s\<lparr>frames := frames s @ [\<lparr>bindings = [], parent_frame = Some f\<rparr>]\<rparr>) s'" .
  then show "length (frames s) < length (frames s')"
    by (simp add: frames_kept_def)
  from k have "parent_frame (frames s' ! length (frames s))
      = parent_frame ((frames s @ [\<lparr>bindings = [], parent_frame = Some f\<rparr>]) ! length (frames s))"
    by (simp add: frames_kept_def)
  then show "parent_frame (frames s' ! length (frames s)) = Some f"
    by simp
  show "\<forall>g < length (frames s).
          keys s' g = keys s g
          \<and> parent_frame (frames s' ! g) = parent_frame (frames s ! g)"
  proof (intro allI impI)
    fix g
    assume g: "g < length (frames s)"
    with k have "keys s' g
        = keys (s\<lparr>frames := frames s @ [\<lparr>bindings = [], parent_frame = Some f\<rparr>]\<rparr>) g"
      and "parent_frame (frames s' ! g)
        = parent_frame ((frames s @ [\<lparr>bindings = [], parent_frame = Some f\<rparr>]) ! g)"
      by (simp_all add: frames_kept_def)
    with g show "keys s' g = keys s g
        \<and> parent_frame (frames s' ! g) = parent_frame (frames s ! g)"
      by (simp add: keys_def nth_append)
  qed
next
  show "map_option fst (evaluate h 10 let_ab 1 fresh) = Some (Inr (VInt 1))"
    by code_simp
qed (rule evaluate_let let_loop_Nil let_loop_Cons)+

theorem let_form_witness:
  "evaluate int_host (Suc 9) (Lst [Sym ''let'',
       Lst [Lst [Sym ''a'', Num 1], Lst [Sym ''b'', Sym ''a'']], Sym ''b'']) 1 fresh
     = Some (Inr (VInt 1), store_let)
   \<and> length (frames fresh) < length (frames store_let)
   \<and> parent_frame (frames store_let ! length (frames fresh)) = Some 1
   \<and> keys store_let 1 = keys fresh 1
   \<and> keys store_let 0 = keys fresh 0"
proof -
  have ev: "evaluate int_host (Suc 9) (Lst [Sym ''let'',
       Lst [Lst [Sym ''a'', Num 1], Lst [Sym ''b'', Sym ''a'']], Sym ''b'']) 1 fresh
     = Some (Inr (VInt 1), store_let)"
    by code_simp
  have l: "(0::nat) < length (frames fresh)" "(1::nat) < length (frames fresh)"
    by code_simp+
  from let_form [of int_host 9 "[Lst [Sym ''a'', Num 1], Lst [Sym ''b'', Sym ''a'']]"
      "Sym ''b''" 1 fresh 0 "''a''" "Num 1" "[]" "Inr (VInt 1)" store_let] ev l
  show ?thesis by blast
qed

end
